theory Spec2Isabelle
  imports Main "HOL-Library.Sublist"
begin

section \<open>Strings and numbers of the host language\<close>

text \<open>
  The linter is TypeScript running inside a design tool. Its strings are modelled as HOL
  strings and the string methods it calls are written out below. Case folding and
  trimming are modelled on ASCII. The numbers the linter reads (corner radii, spacing,
  padding) are modelled as integers; their decimal rendering in template strings is
  \<open>showInt\<close>.
\<close>

definition lowerChar :: "char \<Rightarrow> char" where
  "lowerChar c =
     (let n = (of_char c :: nat) in if 65 \<le> n \<and> n \<le> 90 then char_of (n + 32) else c)"

definition toLowerCase :: "string \<Rightarrow> string" where
  "toLowerCase s = map lowerChar s"

definition isSpace :: "char \<Rightarrow> bool" where
  "isSpace c = (c = CHR '' '' \<or> c = CHR 0x09 \<or> c = CHR 0x0A \<or> c = CHR 0x0B
                \<or> c = CHR 0x0C \<or> c = CHR 0x0D)"

definition trim :: "string \<Rightarrow> string" where
  "trim s = rev (dropWhile isSpace (rev (dropWhile isSpace s)))"

text \<open>\<open>startsWith s p\<close> is \<^verbatim>\<open>s.startsWith(p)\<close>, \<open>includesStr s p\<close> is \<^verbatim>\<open>s.includes(p)\<close>.\<close>

fun startsWith :: "string \<Rightarrow> string \<Rightarrow> bool" where
  "startsWith s [] = True"
| "startsWith [] (p # ps) = False"
| "startsWith (c # cs) (p # ps) = (c = p \<and> startsWith cs ps)"

fun includesStr :: "string \<Rightarrow> string \<Rightarrow> bool" where
  "includesStr [] p = (p = [])"
| "includesStr (c # cs) p = (startsWith (c # cs) p \<or> includesStr cs p)"

definition endsWithStar :: "string \<Rightarrow> bool" where
  "endsWithStar s = (s \<noteq> [] \<and> last s = CHR ''*'')"

definition digitChar :: "nat \<Rightarrow> char" where
  "digitChar d = ''0123456789'' ! d"

function showNat :: "nat \<Rightarrow> string" where
  "showNat n = (if n < 10 then [digitChar n] else showNat (n div 10) @ [digitChar (n mod 10)])"
  by pat_completeness auto
termination
  by (relation "measure id") auto

declare showNat.simps [simp del]

definition showInt :: "int \<Rightarrow> string" where
  "showInt i = (if i < 0 then CHR ''-'' # showNat (nat (- i)) else showNat (nat i))"

definition showBool :: "bool \<Rightarrow> string" where
  "showBool b = (if b then ''true'' else ''false'')"

text \<open>\<^verbatim>\<open>parts.join(', ')\<close>\<close>

fun joinComma :: "string list \<Rightarrow> string" where
  "joinComma [] = []"
| "joinComma [x] = x"
| "joinComma (x # y # ys) = x @ '', '' @ joinComma (y # ys)"

section \<open>Exception patterns\<close>

text \<open>
  The callback passed to \<^verbatim>\<open>exceptions.some\<close>, the same in \<^verbatim>\<open>matchesExceptions\<close> and at
  the head of \<^verbatim>\<open>checkLibrarySources\<close>: the pattern is trimmed; an empty pattern never
  matches; a pattern ending in a star is a case-insensitive prefix test on what precedes
  the star; any other pattern is a case-insensitive substring test.
\<close>

definition exceptionMatches :: "string \<Rightarrow> string \<Rightarrow> bool" where
  "exceptionMatches name exception =
     (let trimmedException = trim exception in
      if trimmedException = [] then False
      else if endsWithStar trimmedException
        then startsWith (toLowerCase name) (toLowerCase (butlast trimmedException))
      else includesStr (toLowerCase name) (toLowerCase trimmedException))"

definition matchesExceptions :: "string \<Rightarrow> string list \<Rightarrow> bool" where
  "matchesExceptions styleName exceptions =
     (if exceptions = [] then False
      else if styleName = [] \<or> trim styleName = [] then False
      else list_ex (exceptionMatches styleName) exceptions)"

section \<open>The document tree\<close>

text \<open>
  A node of the host's tree, with the properties the linter reads. A property that a
  node kind does not have (\<^verbatim>\<open>'fills' in node\<close> is false) is \<open>None\<close>. The host's
  \<^verbatim>\<open>figma.mixed\<close> symbol is \<open>Mixed\<close>; by the host's typings it can be the value of
  \<^verbatim>\<open>fills\<close>, \<^verbatim>\<open>fillStyleId\<close>, \<^verbatim>\<open>textStyleId\<close> and \<^verbatim>\<open>cornerRadius\<close>, while
  \<^verbatim>\<open>strokes\<close>, \<^verbatim>\<open>strokeStyleId\<close>, \<^verbatim>\<open>effectStyleId\<close> and the four individual corner
  radii are plain values. Of a paint only its type is read. Of an instance's main
  component only \<^verbatim>\<open>boundVariables\<close> is read: \<open>mainComponent\<close> is \<open>None\<close> for a null
  reference and otherwise holds that component's \<open>boundVariables\<close>.
\<close>

datatype nodeType = DOCUMENT | PAGE | FRAME | GROUP | COMPONENT | INSTANCE | TEXT
  | RECTANGLE | ELLIPSE | VECTOR | OTHER string

datatype 'a orMixed = Mixed | Val 'a

datatype paintType = SOLID | OTHER_PAINT

datatype layoutModeT = NONE | HORIZONTAL | VERTICAL

datatype alignT = ALIGN_MIN | ALIGN_MAX | ALIGN_CENTER | SPACE_BETWEEN | ALIGN_NONE

datatype wrapT = NO_WRAP | WRAP

text \<open>
  A value of \<^verbatim>\<open>boundVariables\<close>: a single alias \<^verbatim>\<open>{type, id}\<close>, or an array of aliases
  (paints), which has no \<^verbatim>\<open>id\<close> of its own. The object is an association list in
  insertion order, the order of \<^verbatim>\<open>Object.entries\<close>.
\<close>

datatype binding = VariableAlias string | AliasArray "string list"

type_synonym boundVars = "(string \<times> binding) list"

record layoutProps =
  layoutMode :: layoutModeT
  primaryAxisAlignItems :: alignT
  layoutWrap :: "wrapT option"
  itemSpacing :: int
  paddingLeft :: int
  paddingRight :: int
  paddingTop :: int
  paddingBottom :: int

record props =
  node_id :: string
  node_name :: string
  node_type :: nodeType
  locked :: bool
  visible :: bool
  parentType :: "nodeType option"
  fills :: "paintType list orMixed option"
  fillStyleId :: "string orMixed option"
  strokes :: "paintType list option"
  strokeStyleId :: "string option"
  textStyleId :: "string orMixed option"
  effectStyleId :: "string option"
  boundVariables :: "boundVars option"
  cornerRadius :: "int orMixed option"
  topLeftRadius :: "int option"
  topRightRadius :: "int option"
  bottomLeftRadius :: "int option"
  bottomRightRadius :: "int option"
  layout :: "layoutProps option"
  mainComponent :: "boundVars option option"

datatype node = Node props "node list option"

section \<open>Issues and the radius audit log\<close>

text \<open>
  \<^verbatim>\<open>LintIssue\<close> and \<^verbatim>\<open>RadiusAuditEntry\<close> of \<^verbatim>\<open>types/lint\<close>. The issue's \<^verbatim>\<open>debug\<close> text
  (a temporary diagnostic field) is left out. The fields of an audit entry carry the
  prefix \<open>a\<close> where the name is taken by an issue field.
\<close>

datatype issueType = Fill | Stroke | TextStyle | Radius | Gap | Padding

record issue =
  nodeId :: string
  nodeName :: string
  issue_type :: issueType
  message :: string
  details :: "string option"
  sourceLibraryId :: "string option"
  sourceLibraryName :: "string option"
  nodeType :: nodeType
  isAutoLayout :: bool
  issueLayoutMode :: layoutModeT
  layoutAlign :: alignT
  issueLayoutWrap :: wrapT

record auditEntry =
  aNodeId :: string
  aNodeName :: string
  aNodeType :: nodeType
  aCornerRadius :: string
  isIssue :: bool
  decisionPath :: string
  bindingDetails :: string
  inspectionDetails :: string
  aTopLeftRadius :: "string option"
  aTopRightRadius :: "string option"
  aBottomLeftRadius :: "string option"
  aBottomRightRadius :: "string option"

text \<open>\<^verbatim>\<open>getAutoLayoutInfo\<close>, spread into every issue.\<close>

definition baseIssue :: "props \<Rightarrow> issueType \<Rightarrow> string \<Rightarrow> issue" where
  "baseIssue p t msg =
     \<lparr> nodeId = node_id p, nodeName = node_name p, issue_type = t, message = msg,
       details = None, sourceLibraryId = None, sourceLibraryName = None,
       nodeType = node_type p,
       isAutoLayout = (case layout p of None \<Rightarrow> False | Some l \<Rightarrow> layoutMode l \<noteq> NONE),
       issueLayoutMode = (case layout p of None \<Rightarrow> NONE | Some l \<Rightarrow> layoutMode l),
       layoutAlign = (case layout p of None \<Rightarrow> ALIGN_NONE | Some l \<Rightarrow> primaryAxisAlignItems l),
       issueLayoutWrap =
         (case layout p of None \<Rightarrow> NO_WRAP
          | Some l \<Rightarrow> (case layoutWrap l of None \<Rightarrow> NO_WRAP | Some w \<Rightarrow> WRAP)) \<rparr>"

definition createFillIssue :: "props \<Rightarrow> issue" where
  "createFillIssue p = baseIssue p Fill ''Fill not linked to a style or variable''"

definition createStrokeIssue :: "props \<Rightarrow> issue" where
  "createStrokeIssue p = baseIssue p Stroke ''Stroke not linked to a style or variable''"

definition createTextIssue :: "props \<Rightarrow> issue" where
  "createTextIssue p = baseIssue p TextStyle ''Text not linked to a style or variable''"

definition createRadiusIssue :: "props \<Rightarrow> string \<Rightarrow> issue" where
  "createRadiusIssue p radiusDetails =
     (baseIssue p Radius ''Corner radius not linked to a variable'')
       \<lparr> details := Some radiusDetails \<rparr>"

definition createGapIssue :: "props \<Rightarrow> issue" where
  "createGapIssue p = baseIssue p Gap ''Item spacing not linked to a variable''"

definition createPaddingIssue :: "props \<Rightarrow> string \<Rightarrow> issue" where
  "createPaddingIssue p paddingDetails =
     (baseIssue p Padding ''Padding not linked to a variable'')
       \<lparr> details := Some paddingDetails \<rparr>"

definition typeText :: "issueType \<Rightarrow> string" where
  "typeText t = (case t of Fill \<Rightarrow> ''Color Fill'' | Stroke \<Rightarrow> ''Color Stroke''
     | TextStyle \<Rightarrow> ''Text Style'' | Radius \<Rightarrow> ''Radius'' | Gap \<Rightarrow> ''Gap''
     | Padding \<Rightarrow> ''Padding'')"

definition createWrongLibraryIssue :: "props \<Rightarrow> issueType \<Rightarrow> string \<Rightarrow> string \<Rightarrow> issue" where
  "createWrongLibraryIssue p itemType srcLibraryId srcLibraryName =
     (baseIssue p itemType (''Wrong library/'' @ typeText itemType))
       \<lparr> sourceLibraryId := Some srcLibraryId, sourceLibraryName := Some srcLibraryName \<rparr>"

text \<open>\<^verbatim>\<open>hasVariableBinding\<close>: the node has a \<^verbatim>\<open>boundVariables\<close> object holding the property.\<close>

definition hasVariableBindingOn :: "boundVars option \<Rightarrow> string \<Rightarrow> bool" where
  "hasVariableBindingOn bv property =
     (case bv of None \<Rightarrow> False | Some bindings \<Rightarrow> map_of bindings property \<noteq> None)"

definition hasVariableBinding :: "props \<Rightarrow> string \<Rightarrow> bool" where
  "hasVariableBinding p property = hasVariableBindingOn (boundVariables p) property"

section \<open>The Detachment Rule Evaluator\<close>

text \<open>
  \<^verbatim>\<open>checkDetachedStyles\<close> runs five checks in a row and pushes their issues to one list.
  Each check is a definition of its own here, in the order of the source. The console
  log calls are dropped. On a node of this model no check throws, so the
  \<^verbatim>\<open>try\<close> block always runs to its end.
\<close>

text \<open>\<^verbatim>\<open>Boolean(node.fillStyleId)\<close>: the mixed symbol and a non-empty string are truthy.\<close>

definition truthyStyleId :: "string orMixed option \<Rightarrow> bool" where
  "truthyStyleId s = (case s of None \<Rightarrow> False | Some Mixed \<Rightarrow> True | Some (Val v) \<Rightarrow> v \<noteq> [])"

definition truthyString :: "string option \<Rightarrow> bool" where
  "truthyString s = (case s of None \<Rightarrow> False | Some v \<Rightarrow> v \<noteq> [])"

definition fillsCheck :: "props \<Rightarrow> issue list" where
  "fillsCheck p =
     (case fills p of
        None \<Rightarrow> []
      | Some fs \<Rightarrow>
          (let hasFillStyle = truthyStyleId (fillStyleId p);
               hasFillVariable = hasVariableBinding p ''fills''
           in case fs of
                Val (fill # rest) \<Rightarrow>
                  if fill = SOLID \<and> \<not> hasFillStyle \<and> \<not> hasFillVariable
                  then [createFillIssue p] else []
              | _ \<Rightarrow> []))"

definition strokesCheck :: "props \<Rightarrow> issue list" where
  "strokesCheck p =
     (case strokes p of
        None \<Rightarrow> []
      | Some ss \<Rightarrow>
          (let hasStrokeStyle = truthyString (strokeStyleId p);
               hasStrokeVariable = hasVariableBinding p ''strokes''
           in case ss of
                stroke # rest \<Rightarrow>
                  if stroke = SOLID \<and> \<not> hasStrokeStyle \<and> \<not> hasStrokeVariable
                  then [createStrokeIssue p] else []
              | [] \<Rightarrow> []))"

definition textCheck :: "props \<Rightarrow> issue list" where
  "textCheck p =
     (if node_type p = TEXT then
        (let hasTextStyle = truthyStyleId (textStyleId p);
             hasTextVariable = (hasVariableBinding p ''characters''
                \<or> hasVariableBinding p ''textStyleId''
                \<or> hasVariableBinding p ''fontName''
                \<or> hasVariableBinding p ''fontSize'')
         in if \<not> hasTextStyle \<and> \<not> hasTextVariable then [createTextIssue p] else [])
      else [])"

subsection \<open>Corner radius: the values the decision reads\<close>

definition hasIndividualCornerRadii :: "props \<Rightarrow> bool" where
  "hasIndividualCornerRadii p =
     (topLeftRadius p \<noteq> None \<and> topRightRadius p \<noteq> None
      \<and> bottomLeftRadius p \<noteq> None \<and> bottomRightRadius p \<noteq> None)"

text \<open>The four locals \<^verbatim>\<open>topLeft\<close> ... \<^verbatim>\<open>bottomRight\<close>; \<open>None\<close> is \<^verbatim>\<open>undefined\<close>.\<close>

definition topLeft :: "props \<Rightarrow> int option" where
  "topLeft p = (if hasIndividualCornerRadii p then topLeftRadius p else None)"

definition topRight :: "props \<Rightarrow> int option" where
  "topRight p = (if hasIndividualCornerRadii p then topRightRadius p else None)"

definition bottomLeft :: "props \<Rightarrow> int option" where
  "bottomLeft p = (if hasIndividualCornerRadii p then bottomLeftRadius p else None)"

definition bottomRight :: "props \<Rightarrow> int option" where
  "bottomRight p = (if hasIndividualCornerRadii p then bottomRightRadius p else None)"

text \<open>\<^verbatim>\<open>v > 0\<close> and \<^verbatim>\<open>v === 0 || v === undefined\<close> on such a local.\<close>

definition positive :: "int option \<Rightarrow> bool" where
  "positive v = (case v of None \<Rightarrow> False | Some n \<Rightarrow> 0 < n)"

definition zeroOrUndefined :: "int option \<Rightarrow> bool" where
  "zeroOrUndefined v = (case v of None \<Rightarrow> True | Some n \<Rightarrow> n = 0)"

definition hasUniformIndividualCorners :: "props \<Rightarrow> bool" where
  "hasUniformIndividualCorners p =
     (hasIndividualCornerRadii p \<and> topLeft p = topRight p \<and> topRight p = bottomLeft p
      \<and> bottomLeft p = bottomRight p \<and> positive (topLeft p))"

definition isIndividualModeConsistent :: "props \<Rightarrow> bool" where
  "isIndividualModeConsistent p =
     (hasUniformIndividualCorners p
      \<and> (case cornerRadius p of Some (Val n) \<Rightarrow> topLeft p = Some n | _ \<Rightarrow> False))"

definition isInstanceWithInheritedVariables :: "props \<Rightarrow> bool" where
  "isInstanceWithInheritedVariables p =
     (if node_type p = INSTANCE then
        (case mainComponent p of
           None \<Rightarrow> False
         | Some mc \<Rightarrow>
             hasVariableBindingOn mc ''cornerRadius''
             \<or> hasVariableBindingOn mc ''topLeftRadius''
             \<or> hasVariableBindingOn mc ''topRightRadius''
             \<or> hasVariableBindingOn mc ''bottomLeftRadius''
             \<or> hasVariableBindingOn mc ''bottomRightRadius'')
      else False)"

definition isComponentOrInstance :: "props \<Rightarrow> bool" where
  "isComponentOrInstance p = (node_type p = COMPONENT \<or> node_type p = INSTANCE)"

text \<open>
  Two of the locals are not always booleans: \<^verbatim>\<open>a || (node.parent && ...)\<close> is \<^verbatim>\<open>null\<close>
  for a node without parent, and \<^verbatim>\<open>... || ('effectStyleId' in node && node.effectStyleId)\<close>
  is the effect style id itself when nothing before it is true. \<open>jsValue\<close> keeps what
  the template strings of the audit entry print.
\<close>

datatype jsValue = JBool bool | JString string | JNull

definition truthy :: "jsValue \<Rightarrow> bool" where
  "truthy v = (case v of JBool b \<Rightarrow> b | JString s \<Rightarrow> s \<noteq> [] | JNull \<Rightarrow> False)"

definition showJs :: "jsValue \<Rightarrow> string" where
  "showJs v = (case v of JBool b \<Rightarrow> showBool b | JString s \<Rightarrow> s | JNull \<Rightarrow> ''null'')"

definition isInsideComponentInstance :: "props \<Rightarrow> jsValue" where
  "isInsideComponentInstance p =
     (if isComponentOrInstance p then JBool True
      else case parentType p of
             None \<Rightarrow> JNull
           | Some t \<Rightarrow> JBool (t = COMPONENT \<or> t = INSTANCE))"

definition hasCornerRadiusVariable :: "props \<Rightarrow> bool" where
  "hasCornerRadiusVariable p = hasVariableBinding p ''cornerRadius''"

definition hasTopLeftVariable :: "props \<Rightarrow> bool" where
  "hasTopLeftVariable p =
     (hasVariableBinding p ''topLeftRadius'' \<or> hasVariableBinding p ''topLeftRadius.value'')"

definition hasTopRightVariable :: "props \<Rightarrow> bool" where
  "hasTopRightVariable p =
     (hasVariableBinding p ''topRightRadius'' \<or> hasVariableBinding p ''topRightRadius.value'')"

definition hasBottomLeftVariable :: "props \<Rightarrow> bool" where
  "hasBottomLeftVariable p =
     (hasVariableBinding p ''bottomLeftRadius''
      \<or> hasVariableBinding p ''bottomLeftRadius.value'')"

definition hasBottomRightVariable :: "props \<Rightarrow> bool" where
  "hasBottomRightVariable p =
     (hasVariableBinding p ''bottomRightRadius''
      \<or> hasVariableBinding p ''bottomRightRadius.value'')"

definition hasIndividualCornerVariables :: "props \<Rightarrow> bool" where
  "hasIndividualCornerVariables p =
     (hasTopLeftVariable p \<or> hasTopRightVariable p \<or> hasBottomLeftVariable p
      \<or> hasBottomRightVariable p)"

definition allCornersHaveVariables :: "props \<Rightarrow> bool" where
  "allCornersHaveVariables p =
     ((zeroOrUndefined (topLeft p) \<or> hasTopLeftVariable p)
      \<and> (zeroOrUndefined (topRight p) \<or> hasTopRightVariable p)
      \<and> (zeroOrUndefined (bottomLeft p) \<or> hasBottomLeftVariable p)
      \<and> (zeroOrUndefined (bottomRight p) \<or> hasBottomRightVariable p))"

definition hasAnyRadiusBinding :: "props \<Rightarrow> jsValue" where
  "hasAnyRadiusBinding p =
     (if hasCornerRadiusVariable p
         \<or> hasVariableBinding p ''cornerRadius.value''
         \<or> hasVariableBinding p ''cornerRadiusValue''
         \<or> hasIndividualCornerVariables p
         \<or> isInstanceWithInheritedVariables p
      then JBool True
      else case effectStyleId p of None \<Rightarrow> JBool False | Some s \<Rightarrow> JString s)"

subsection \<open>Corner radius: the audit entry\<close>

definition bindingDetailsOf :: "props \<Rightarrow> string" where
  "bindingDetailsOf p =
     ''cornerRadius: '' @ showBool (hasCornerRadiusVariable p) @ '', ''
     @ ''topLeft: '' @ showBool (hasTopLeftVariable p) @ '', ''
     @ ''topRight: '' @ showBool (hasTopRightVariable p) @ '', ''
     @ ''bottomLeft: '' @ showBool (hasBottomLeftVariable p) @ '', ''
     @ ''bottomRight: '' @ showBool (hasBottomRightVariable p) @ '', ''
     @ ''inherited: '' @ showBool (isInstanceWithInheritedVariables p)"

definition inspectionDetailsOf :: "props \<Rightarrow> string" where
  "inspectionDetailsOf p =
     ''isComponentOrInstance: '' @ showBool (isComponentOrInstance p) @ '', ''
     @ ''isInsideComponent: '' @ showJs (isInsideComponentInstance p) @ '', ''
     @ ''hasUniformCorners: '' @ showBool (hasUniformIndividualCorners p) @ '', ''
     @ ''consistent: '' @ showBool (isIndividualModeConsistent p) @ '', ''
     @ ''allCornersHaveVars: '' @ showBool (allCornersHaveVariables p) @ '', ''
     @ ''anyRadiusBinding: '' @ showJs (hasAnyRadiusBinding p)"

text \<open>\<^verbatim>\<open>convertToString\<close> on the aggregate radius and on a defined corner value.\<close>

definition convertToString :: "int orMixed \<Rightarrow> string" where
  "convertToString v = (case v of Mixed \<Rightarrow> ''mixed'' | Val n \<Rightarrow> showInt n)"

text \<open>
  \<^verbatim>\<open>addRadiusAuditEntry\<close> builds the entry that is pushed to the log. A corner that is
  \<^verbatim>\<open>undefined\<close> is left out of the entry.
\<close>

definition addRadiusAuditEntry :: "props \<Rightarrow> int orMixed \<Rightarrow> bool \<Rightarrow> string \<Rightarrow> auditEntry" where
  "addRadiusAuditEntry p radius issueFlag path =
     \<lparr> aNodeId = node_id p, aNodeName = node_name p, aNodeType = node_type p,
       aCornerRadius = convertToString radius,
       isIssue = issueFlag, decisionPath = path,
       bindingDetails = bindingDetailsOf p, inspectionDetails = inspectionDetailsOf p,
       aTopLeftRadius = map_option showInt (topLeft p),
       aTopRightRadius = map_option showInt (topRight p),
       aBottomLeftRadius = map_option showInt (bottomLeft p),
       aBottomRightRadius = map_option showInt (bottomRight p) \<rparr>"

subsection \<open>Corner radius: the decision tree\<close>

text \<open>The conditions of the first two branches, and of the check of the aggregate radius.\<close>

definition branchA :: "props \<Rightarrow> bool" where
  "branchA p =
     ((isInstanceWithInheritedVariables p \<or> truthy (hasAnyRadiusBinding p))
      \<and> allCornersHaveVariables p)"

definition branchB :: "props \<Rightarrow> bool" where
  "branchB p =
     (hasUniformIndividualCorners p \<and> truthy (hasAnyRadiusBinding p)
      \<and> allCornersHaveVariables p)"

definition branchC :: "props \<Rightarrow> int orMixed \<Rightarrow> bool" where
  "branchC p radius =
     ((case radius of Mixed \<Rightarrow> False | Val n \<Rightarrow> 0 < n) \<and> \<not> hasCornerRadiusVariable p)"

text \<open>The list \<^verbatim>\<open>missingBindings\<close> of the individual corners.\<close>

definition missingCorner :: "string \<Rightarrow> int option \<Rightarrow> bool \<Rightarrow> string list" where
  "missingCorner label v hasVariable =
     (case v of
        None \<Rightarrow> []
      | Some n \<Rightarrow> if 0 < n \<and> \<not> hasVariable then [label @ '': '' @ showInt n] else [])"

definition missingBindings :: "props \<Rightarrow> string list" where
  "missingBindings p =
     missingCorner ''topLeft'' (topLeft p) (hasTopLeftVariable p)
     @ missingCorner ''topRight'' (topRight p) (hasTopRightVariable p)
     @ missingCorner ''bottomLeft'' (bottomLeft p) (hasBottomLeftVariable p)
     @ missingCorner ''bottomRight'' (bottomRight p) (hasBottomRightVariable p)"

text \<open>
  The radius check gives the issues it pushes and the audit entries it appends, in the
  order of the source's \<^verbatim>\<open>if\<close> chain. The last \<^verbatim>\<open>else if\<close> has no \<^verbatim>\<open>else\<close>.
\<close>

definition radiusCheck :: "props \<Rightarrow> issue list \<times> auditEntry list" where
  "radiusCheck p =
     (case cornerRadius p of
        None \<Rightarrow> ([], [])
      | Some radius \<Rightarrow>
          if branchA p then
            ([], [addRadiusAuditEntry p radius False
                    ''EXCLUDED: Has necessary variable bindings''])
          else if branchB p then
            ([], [addRadiusAuditEntry p radius False
                    ''EXCLUDED: Uniform corners with variables''])
          else if branchC p radius then
            ([createRadiusIssue p ''uniform''],
             [addRadiusAuditEntry p radius True ''ISSUE: Uniform radius without variables''])
          else if hasIndividualCornerRadii p then
            (if missingBindings p \<noteq> [] then
               (let issueDetails =
                      (if hasUniformIndividualCorners p
                       then ''ISSUE: Uniform individual corners without variables''
                       else ''ISSUE: Mixed corners without variables (''
                            @ joinComma (missingBindings p) @ '')'')
                in ([if hasUniformIndividualCorners p
                     then createRadiusIssue p ''uniform''
                     else createRadiusIssue p
                            (''mixed ('' @ joinComma (missingBindings p) @ '')'')],
                    [addRadiusAuditEntry p radius True issueDetails]))
             else
               ([], [addRadiusAuditEntry p radius False
                       ''EXCLUDED: No corners missing variables'']))
          else ([], []))"

subsection \<open>Auto-layout: gap and padding\<close>

definition hasAutoLayout :: "props \<Rightarrow> bool" where
  "hasAutoLayout p = (case layout p of None \<Rightarrow> False | Some l \<Rightarrow> layoutMode l \<noteq> NONE)"

definition hasAutoSpacing :: "props \<Rightarrow> bool" where
  "hasAutoSpacing p =
     (case layout p of None \<Rightarrow> False | Some l \<Rightarrow> primaryAxisAlignItems l = SPACE_BETWEEN)"

definition layoutCheck :: "props \<Rightarrow> issue list" where
  "layoutCheck p =
     (case layout p of
        None \<Rightarrow> []
      | Some l \<Rightarrow>
          if layoutMode l \<noteq> NONE then
            (let gap = (if 0 < itemSpacing l \<and> \<not> hasVariableBinding p ''itemSpacing''
                           \<and> \<not> hasAutoSpacing p
                        then [createGapIssue p] else []);
                 hasHorizontalPaddingIssue =
                   ((0 < paddingLeft l \<and> \<not> hasVariableBinding p ''paddingLeft'')
                    \<or> (0 < paddingRight l \<and> \<not> hasVariableBinding p ''paddingRight''));
                 hasVerticalPaddingIssue =
                   ((0 < paddingTop l \<and> \<not> hasVariableBinding p ''paddingTop'')
                    \<or> (0 < paddingBottom l \<and> \<not> hasVariableBinding p ''paddingBottom''));
                 padding =
                   (if hasHorizontalPaddingIssue \<or> hasVerticalPaddingIssue then
                      [createPaddingIssue p
                         (if hasHorizontalPaddingIssue \<and> \<not> hasVerticalPaddingIssue
                          then ''horizontal''
                          else if \<not> hasHorizontalPaddingIssue \<and> hasVerticalPaddingIssue
                          then ''vertical'' else ''all'')]
                    else [])
             in gap @ padding)
          else [])"

subsection \<open>The evaluator\<close>

text \<open>
  \<^verbatim>\<open>checkDetachedStyles\<close>, with the audit log it appends to passed in and returned. A
  locked or invisible node returns at once, before any check.
\<close>

definition checkDetachedStyles :: "props \<Rightarrow> auditEntry list \<Rightarrow> issue list \<times> auditEntry list" where
  "checkDetachedStyles p log =
     (if locked p \<or> \<not> visible p then ([], log)
      else (fillsCheck p @ strokesCheck p @ textCheck p @ fst (radiusCheck p) @ layoutCheck p,
            log @ snd (radiusCheck p)))"

section \<open>The Provenance Checker\<close>

text \<open>
  The host's resolvers. A lookup that returns \<^verbatim>\<open>null\<close> and a lookup that throws end
  the same way in the source (the style has no name; the variable is skipped), so both
  are \<open>None\<close>.
\<close>

record variable =
  variableName :: string
  variableCollectionId :: string

record collection =
  libraryId :: "string option"

record host =
  getStyleById :: "string \<Rightarrow> string option"
  getVariableById :: "string \<Rightarrow> variable option"
  getVariableCollectionById :: "string \<Rightarrow> collection option"

text \<open>
  \<^verbatim>\<open>getStyleLibraryInfo\<close>: an id without comma is local; otherwise the type prefix
  (letters and a colon, the regular expression \<^verbatim>\<open>/^[a-zA-Z]+:/\<close>) is removed and the
  id is split at its commas into library id and style key.
\<close>

definition isLetter :: "char \<Rightarrow> bool" where
  "isLetter c = (let n = (of_char c :: nat) in (65 \<le> n \<and> n \<le> 90) \<or> (97 \<le> n \<and> n \<le> 122))"

definition stripTypePrefix :: "string \<Rightarrow> string" where
  "stripTypePrefix s =
     (case dropWhile isLetter s of
        [] \<Rightarrow> s
      | c # rest \<Rightarrow> if takeWhile isLetter s \<noteq> [] \<and> c = CHR '':'' then rest else s)"

definition notComma :: "char \<Rightarrow> bool" where
  "notComma c = (c \<noteq> CHR '','')"

definition getStyleLibraryInfo :: "string \<Rightarrow> (string \<times> string) option" where
  "getStyleLibraryInfo styleId =
     (if styleId = [] then None
      else if list_all notComma styleId then Some (''local'', styleId)
      else (let cleanId = stripTypePrefix styleId in
            case dropWhile notComma cleanId of
              [] \<Rightarrow> None
            | c # rest \<Rightarrow> Some (takeWhile notComma cleanId, takeWhile notComma rest)))"

text \<open>\<^verbatim>\<open>libraryMap.get(id)?.name || 'Unknown library'\<close>\<close>

definition libraryNameOf :: "(string \<Rightarrow> string option) \<Rightarrow> string \<Rightarrow> string" where
  "libraryNameOf libMap lib =
     (case libMap lib of
        None \<Rightarrow> ''Unknown library''
      | Some n \<Rightarrow> if n = [] then ''Unknown library'' else n)"

text \<open>
  The source checks the fill, stroke, text and effect style with four copies of one
  block; \<open>styleSourceCheck\<close> is that block, given the style id the copy reads and the
  issue type it reports.
\<close>

definition styleSourceCheck ::
  "host \<Rightarrow> props \<Rightarrow> string \<Rightarrow> (string \<Rightarrow> string option) \<Rightarrow> string list \<Rightarrow> issueType
     \<Rightarrow> string orMixed option \<Rightarrow> issue list" where
  "styleSourceCheck h p selectedLibrary libMap exceptions itemType sid =
     (case sid of
        None \<Rightarrow> []
      | Some Mixed \<Rightarrow> []
      | Some (Val styleId) \<Rightarrow>
          if styleId = [] then []
          else
            (let styleInfo = getStyleLibraryInfo styleId;
                 styleName = (case getStyleById h styleId of None \<Rightarrow> [] | Some n \<Rightarrow> n)
             in if styleName \<noteq> [] \<and> matchesExceptions styleName exceptions then []
                else case styleInfo of
                       None \<Rightarrow> []
                     | Some (lib, styleKeyId) \<Rightarrow>
                         if lib = ''local'' then []
                         else if lib \<noteq> selectedLibrary
                         then [createWrongLibraryIssue p itemType lib (libraryNameOf libMap lib)]
                         else []))"

text \<open>The issue type of a bound variable, from the name of the property it is bound to.\<close>

definition issueTypeOfProperty :: "string \<Rightarrow> issueType" where
  "issueTypeOfProperty propName =
     (if includesStr propName ''radius'' then Radius
      else if includesStr propName ''gap'' \<or> includesStr propName ''itemSpacing'' then Gap
      else if includesStr propName ''padding'' then Padding
      else if includesStr propName ''stroke'' then Stroke
      else if includesStr propName ''text'' \<or> includesStr propName ''font'' then TextStyle
      else Fill)"

definition bindingId :: "binding \<Rightarrow> string option" where
  "bindingId b = (case b of VariableAlias i \<Rightarrow> Some i | AliasArray is \<Rightarrow> None)"

text \<open>The callback of \<^verbatim>\<open>Object.entries(boundVars).forEach\<close>.\<close>

definition variableSourceCheck ::
  "host \<Rightarrow> props \<Rightarrow> string \<Rightarrow> (string \<Rightarrow> string option) \<Rightarrow> string \<times> binding
     \<Rightarrow> issue list" where
  "variableSourceCheck h p selectedLibrary libMap entry =
     (case bindingId (snd entry) of
        None \<Rightarrow> []
      | Some varId \<Rightarrow>
          if varId = [] then []
          else case getVariableById h varId of
                 None \<Rightarrow> []
               | Some v \<Rightarrow>
                   (case getVariableCollectionById h (variableCollectionId v) of
                      None \<Rightarrow> []
                    | Some c \<Rightarrow>
                        (case libraryId c of
                           None \<Rightarrow> []
                         | Some lib \<Rightarrow>
                             if lib \<noteq> [] \<and> lib \<noteq> selectedLibrary
                             then [createWrongLibraryIssue p (issueTypeOfProperty (fst entry))
                                     lib (libraryNameOf libMap lib)]
                             else [])))"

definition checkLibrarySources ::
  "host \<Rightarrow> props \<Rightarrow> string \<Rightarrow> (string \<Rightarrow> string option) \<Rightarrow> string list \<Rightarrow> issue list" where
  "checkLibrarySources h p selectedLibrary libMap exceptions =
     (if exceptions \<noteq> [] \<and> list_ex (exceptionMatches (node_name p)) exceptions then []
      else
        styleSourceCheck h p selectedLibrary libMap exceptions Fill (fillStyleId p)
        @ styleSourceCheck h p selectedLibrary libMap exceptions Stroke
            (map_option Val (strokeStyleId p))
        @ (if node_type p = TEXT
           then styleSourceCheck h p selectedLibrary libMap exceptions TextStyle (textStyleId p)
           else [])
        @ styleSourceCheck h p selectedLibrary libMap exceptions Fill
            (map_option Val (effectStyleId p))
        @ (case boundVariables p of
             None \<Rightarrow> []
           | Some boundVars \<Rightarrow>
               concat (map (variableSourceCheck h p selectedLibrary libMap) boundVars)))"

section \<open>The scan\<close>

text \<open>
  The module-level settings of \<^verbatim>\<open>main.ts\<close>, read by every scan, and the page the scan
  walks. The scan's counter \<^verbatim>\<open>nodeCount\<close> is only incremented and never read; it is
  left out.
\<close>

record settings =
  selectedLibraryId :: "string option"
  libraryMap :: "string \<Rightarrow> string option"
  styleExceptions :: "string list"
  excludeLockedLayers :: bool
  excludeHiddenLayers :: bool
  checkFills :: bool
  checkStrokes :: bool
  checkTexts :: bool
  checkRadius :: bool
  checkGaps :: bool
  checkPadding :: bool

record page =
  selection :: "node list"
  pageChildren :: "node list"

definition isLintableNode :: "settings \<Rightarrow> props \<Rightarrow> bool" where
  "isLintableNode st p =
     (if node_type p = PAGE \<or> node_type p = DOCUMENT then False
      else if excludeLockedLayers st \<and> locked p then False
      else if excludeHiddenLayers st \<and> \<not> visible p then False
      else (node_type p = TEXT \<or> fills p \<noteq> None \<or> strokes p \<noteq> None
            \<or> cornerRadius p \<noteq> None \<or> hasAutoLayout p))"

text \<open>The filter on the issues of the evaluator: the switch on \<^verbatim>\<open>issue.type\<close>.\<close>

definition shouldInclude :: "settings \<Rightarrow> issue \<Rightarrow> bool" where
  "shouldInclude st i =
     (case issue_type i of
        Fill \<Rightarrow> checkFills st
      | Stroke \<Rightarrow> checkStrokes st
      | TextStyle \<Rightarrow> checkTexts st
      | Radius \<Rightarrow> checkRadius st
      | Gap \<Rightarrow> checkGaps st
      | Padding \<Rightarrow> checkPadding st)"

text \<open>
  The filter on the children before recursion. A page or document has no \<^verbatim>\<open>locked\<close> or
  \<^verbatim>\<open>visible\<close> property, so the tests \<^verbatim>\<open>'locked' in child\<close> and \<^verbatim>\<open>'visible' in child\<close>
  fail for it.
\<close>

definition isSceneNode :: "props \<Rightarrow> bool" where
  "isSceneNode p = (node_type p \<noteq> PAGE \<and> node_type p \<noteq> DOCUMENT)"

fun nodeProps :: "node \<Rightarrow> props" where
  "nodeProps (Node p ch) = p"

definition keepChild :: "settings \<Rightarrow> node \<Rightarrow> bool" where
  "keepChild st child =
     (if excludeLockedLayers st \<and> isSceneNode (nodeProps child) \<and> locked (nodeProps child)
      then False
      else if excludeHiddenLayers st \<and> isSceneNode (nodeProps child)
              \<and> \<not> visible (nodeProps child)
      then False
      else True)"

text \<open>
  What \<^verbatim>\<open>traverse\<close> does with one node before it recurses: the issues of the evaluator
  are filtered by the settings and pushed, then the issues of the provenance checker
  are pushed as they are, when a library is selected.
\<close>

definition visitNode ::
  "host \<Rightarrow> settings \<Rightarrow> props \<Rightarrow> issue list \<times> auditEntry list
     \<Rightarrow> issue list \<times> auditEntry list" where
  "visitNode h st p acc =
     (if isLintableNode st p then
        (let detached = checkDetachedStyles p (snd acc);
             filteredDetachedIssues = filter (shouldInclude st) (fst detached);
             libraryIssues =
               (case selectedLibraryId st of
                  None \<Rightarrow> []
                | Some lib \<Rightarrow>
                    if lib = [] then []
                    else checkLibrarySources h p lib (libraryMap st) (styleExceptions st))
         in (fst acc @ filteredDetachedIssues @ libraryIssues, snd detached))
      else acc)"

fun traverse ::
  "host \<Rightarrow> settings \<Rightarrow> node \<Rightarrow> issue list \<times> auditEntry list
     \<Rightarrow> issue list \<times> auditEntry list" where
  "traverse h st (Node p ch) acc =
     (case ch of
        None \<Rightarrow> visitNode h st p acc
      | Some cs \<Rightarrow> fold (traverse h st) (filter (keepChild st) cs) (visitNode h st p acc))"

text \<open>
  \<^verbatim>\<open>scanForIssues\<close> starts from an empty issue list and from the audit log as it
  stands: the source imports \<^verbatim>\<open>clearRadiusAuditLog\<close> and never calls it.
\<close>

definition scanForIssues ::
  "host \<Rightarrow> settings \<Rightarrow> page \<Rightarrow> auditEntry list \<Rightarrow> issue list \<times> auditEntry list" where
  "scanForIssues h st pg log =
     (let nodes = (if selection pg \<noteq> [] then selection pg else pageChildren pg)
      in fold (traverse h st) nodes ([], log))"

section \<open>The rescan request\<close>

text \<open>
  The handler of \<^verbatim>\<open>SCAN_AGAIN\<close>. What it sends to the user interface is the list of
  its \<^verbatim>\<open>emit\<close> calls, in order. \<^verbatim>\<open>countFrames\<close> adds one for a frame, component or
  instance and descends only into the children of such a node.
\<close>

datatype event =
    UPDATE_ISSUES "issue list"
  | SELECTION_ERROR string
  | SELECTION_ERROR_DETAIL string string

definition isFrameLike :: "props \<Rightarrow> bool" where
  "isFrameLike p = (node_type p = FRAME \<or> node_type p = COMPONENT \<or> node_type p = INSTANCE)"

fun countFrames :: "node \<Rightarrow> nat \<Rightarrow> nat" where
  "countFrames (Node p ch) totalFrameCount =
     (if isFrameLike p then
        (case ch of
           None \<Rightarrow> totalFrameCount + 1
         | Some cs \<Rightarrow> fold countFrames cs (totalFrameCount + 1))
      else totalFrameCount)"

definition scanAgain ::
  "host \<Rightarrow> settings \<Rightarrow> page \<Rightarrow> auditEntry list \<Rightarrow> event list \<times> auditEntry list" where
  "scanAgain h st pg log =
     (let selectionCount = length (selection pg) in
      if selectionCount = 0 then
        ([UPDATE_ISSUES [], SELECTION_ERROR ''Please select 1-5 frames to lint''], log)
      else if 5 < selectionCount then
        ([UPDATE_ISSUES [], SELECTION_ERROR ''Please select no more than 5 frames''], log)
      else if 5000 < fold countFrames (selection pg) 0 then
        ([UPDATE_ISSUES [],
          SELECTION_ERROR_DETAIL ''Too many frames detected''
            ''More than 5000 nested frames detected. Select fewer frames and try again.''],
         log)
      else (let scanned = scanForIssues h st pg log
            in ([UPDATE_ISSUES (fst scanned)], snd scanned)))"

text \<open>The number of nodes of a tree, of every kind.\<close>

fun nodeCount :: "node \<Rightarrow> nat" where
  "nodeCount (Node p ch) =
     (case ch of None \<Rightarrow> 1 | Some cs \<Rightarrow> 1 + sum_list (map nodeCount cs))"

section \<open>The Issue Aggregator\<close>

text \<open>
  The deduplication of \<^verbatim>\<open>ErrorDisplay\<close>. The accumulator of \<^verbatim>\<open>reduce\<close> is an object
  used as a dictionary from key strings to issues; it is an association list here, in
  insertion order, which is the order of \<^verbatim>\<open>Object.values\<close> (a key holds a hyphen and a
  type name, so it is never an array index). The key is a template string.
\<close>

definition typeName :: "issueType \<Rightarrow> string" where
  "typeName t = (case t of Fill \<Rightarrow> ''fill'' | Stroke \<Rightarrow> ''stroke'' | TextStyle \<Rightarrow> ''text''
     | Radius \<Rightarrow> ''radius'' | Gap \<Rightarrow> ''gap'' | Padding \<Rightarrow> ''padding'')"

definition dedupKey :: "issue \<Rightarrow> string" where
  "dedupKey i =
     (if issue_type i = Radius
      then nodeId i @ ''-'' @ typeName (issue_type i) @ ''-''
           @ (case details i of None \<Rightarrow> [] | Some d \<Rightarrow> d) @ ''-'' @ message i
      else nodeId i @ ''-'' @ typeName (issue_type i)
           @ (case details i of None \<Rightarrow> [] | Some d \<Rightarrow> if d = [] then [] else ''-'' @ d))"

definition dedupStep :: "(string \<times> issue) list \<Rightarrow> issue \<Rightarrow> (string \<times> issue) list" where
  "dedupStep acc i =
     (case map_of acc (dedupKey i) of
        None \<Rightarrow> acc @ [(dedupKey i, i)]
      | Some kept \<Rightarrow> acc)"

definition allDeduplicatedIssues :: "issue list \<Rightarrow> (string \<times> issue) list" where
  "allDeduplicatedIssues issues = foldl dedupStep [] issues"

definition allUniqueIssues :: "issue list \<Rightarrow> issue list" where
  "allUniqueIssues issues = map snd (allDeduplicatedIssues issues)"

text \<open>
  The counts by type, a dictionary from the type to a number, built from the
  deduplicated issues: a type without issue has no entry.
\<close>

definition countStep :: "(issueType \<Rightarrow> nat option) \<Rightarrow> issue \<Rightarrow> (issueType \<Rightarrow> nat option)" where
  "countStep acc i =
     acc(issue_type i \<mapsto> (case acc (issue_type i) of None \<Rightarrow> 0 | Some c \<Rightarrow> c) + 1)"

definition countsByType :: "issue list \<Rightarrow> (issueType \<Rightarrow> nat option)" where
  "countsByType uniqueIssues = foldl countStep Map.empty uniqueIssues"

definition counts :: "issue list \<Rightarrow> (issueType \<Rightarrow> nat option)" where
  "counts issues = countsByType (allUniqueIssues issues)"

section \<open>Notions of the specification\<close>

text \<open>
  The evaluation of a node reaches the last branch of the radius decision (the one
  that looks at the individual corners) when the node is neither locked nor hidden, has
  the aggregate radius \<open>radius\<close>, none of the three conditions before it holds, and the
  node has the four corner properties.
\<close>

definition reachesBranchD :: "props \<Rightarrow> int orMixed \<Rightarrow> bool" where
  "reachesBranchD p radius =
     (\<not> locked p \<and> visible p \<and> cornerRadius p = Some radius
      \<and> \<not> branchA p \<and> \<not> branchB p \<and> \<not> branchC p radius
      \<and> hasIndividualCornerRadii p)"

definition radiusIssues :: "issue list \<Rightarrow> issue list" where
  "radiusIssues issues = filter (\<lambda>i. issue_type i = Radius) issues"

text \<open>
  The key of the specification: node, category, details and message for a radius issue;
  node, category and details for any other.
\<close>

definition specKey :: "issue \<Rightarrow> string \<times> issueType \<times> string option \<times> string option" where
  "specKey i =
     (if issue_type i = Radius then (nodeId i, issue_type i, details i, Some (message i))
      else (nodeId i, issue_type i, details i, None))"

text \<open>
  A list of issues is well formed for the aggregation when no node id and no message
  holds a hyphen, the separator of the key string, and no issue has details that are
  present and empty.
\<close>

definition wellFormedIssue :: "issue \<Rightarrow> bool" where
  "wellFormedIssue i =
     (CHR ''-'' \<notin> set (nodeId i) \<and> CHR ''-'' \<notin> set (message i) \<and> details i \<noteq> Some [])"

text \<open>The part of the key string that follows the type name.\<close>

definition keyRest :: "issue \<Rightarrow> string" where
  "keyRest i =
     (if issue_type i = Radius
      then CHR ''-'' # (case details i of None \<Rightarrow> [] | Some d \<Rightarrow> d) @ CHR ''-'' # message i
      else (case details i of None \<Rightarrow> [] | Some d \<Rightarrow> if d = [] then [] else CHR ''-'' # d))"

text \<open>The number of issues of a type.\<close>

definition countOfType :: "issueType \<Rightarrow> issue list \<Rightarrow> nat" where
  "countOfType t issues = length (filter (\<lambda>i. issue_type i = t) issues)"

text \<open>
  The node ids of the host are digits, colons, semicolons and the letter I; the
  property read here is that no node of a tree has a hyphen in its id.
\<close>

fun hyphenFreeIds :: "node \<Rightarrow> bool" where
  "hyphenFreeIds (Node p ch) =
     (CHR ''-'' \<notin> set (node_id p)
      \<and> (case ch of None \<Rightarrow> True | Some cs \<Rightarrow> list_all hyphenFreeIds cs))"

section \<open>Sample documents and settings\<close>

definition plainNode :: props where
  "plainNode =
     \<lparr> node_id = ''1:2'', node_name = ''Card'', node_type = RECTANGLE,
       locked = False, visible = True, parentType = Some FRAME,
       fills = None, fillStyleId = None, strokes = None, strokeStyleId = None,
       textStyleId = None, effectStyleId = None, boundVariables = None,
       cornerRadius = None, topLeftRadius = None, topRightRadius = None,
       bottomLeftRadius = None, bottomRightRadius = None,
       layout = None, mainComponent = None \<rparr>"

definition roundedCard :: props where
  "roundedCard =
     plainNode \<lparr> cornerRadius := Some (Val 8), topLeftRadius := Some 8,
       topRightRadius := Some 8, bottomLeftRadius := Some 8, bottomRightRadius := Some 8 \<rparr>"

definition lockedRounded :: props where
  "lockedRounded = roundedCard \<lparr> locked := True \<rparr>"

definition hiddenRounded :: props where
  "hiddenRounded = roundedCard \<lparr> visible := False \<rparr>"

definition mixedCorners :: props where
  "mixedCorners =
     plainNode \<lparr> cornerRadius := Some Mixed, topLeftRadius := Some 8,
       topRightRadius := Some 8, bottomLeftRadius := Some 0, bottomRightRadius := Some 8 \<rparr>"

definition squareCard :: props where
  "squareCard =
     plainNode \<lparr> cornerRadius := Some (Val 0), topLeftRadius := Some 0,
       topRightRadius := Some 0, bottomLeftRadius := Some 0, bottomRightRadius := Some 0 \<rparr>"

definition boundCorners :: props where
  "boundCorners =
     plainNode \<lparr> cornerRadius := Some (Val 8), topLeftRadius := Some 8,
       topRightRadius := Some 8, bottomLeftRadius := Some 8, bottomRightRadius := Some 8,
       boundVariables := Some
         [(''topLeftRadius'', VariableAlias ''VariableID:7:1''),
          (''topRightRadius'', VariableAlias ''VariableID:7:1''),
          (''bottomLeftRadius'', VariableAlias ''VariableID:7:1''),
          (''bottomRightRadius'', VariableAlias ''VariableID:7:1'')] \<rparr>"

definition ellipseNode :: props where
  "ellipseNode =
     plainNode \<lparr> node_id := ''1:4'', node_name := ''Dot'', node_type := ELLIPSE,
       cornerRadius := Some (Val 0) \<rparr>"

definition styledCard :: props where
  "styledCard =
     plainNode \<lparr> fills := Some (Val [SOLID]), fillStyleId := Some (Val ''S:libA,4:11'') \<rparr>"

definition lockedStyled :: props where
  "lockedStyled = styledCard \<lparr> locked := True, cornerRadius := Some (Val 8) \<rparr>"

definition tokenCard :: props where
  "tokenCard =
     plainNode \<lparr> node_type := FRAME,
       boundVariables := Some [(''paddingLeft'', VariableAlias ''VariableID:9:3'')],
       layout := Some \<lparr> layoutMode = VERTICAL, primaryAxisAlignItems = ALIGN_MIN,
         layoutWrap = Some NO_WRAP, itemSpacing = 0, paddingLeft = 16, paddingRight = 0,
         paddingTop = 0, paddingBottom = 0 \<rparr> \<rparr>"

definition labelNode :: props where
  "labelNode = plainNode \<lparr> node_id := ''1:3'', node_name := ''Label'', node_type := TEXT \<rparr>"

definition frameNode :: props where
  "frameNode = plainNode \<lparr> node_id := ''1:1'', node_name := ''Screen'', node_type := FRAME,
     parentType := Some PAGE \<rparr>"

definition paintedFrame :: props where
  "paintedFrame = frameNode \<lparr> fills := Some (Val [SOLID]) \<rparr>"

text \<open>A host that resolves nothing, and one that knows a variable of library A.\<close>

definition emptyHost :: host where
  "emptyHost =
     \<lparr> getStyleById = (\<lambda>i. None), getVariableById = (\<lambda>i. None),
       getVariableCollectionById = (\<lambda>i. None) \<rparr>"

definition tokenHost :: host where
  "tokenHost =
     \<lparr> getStyleById = (\<lambda>i. if i = ''S:libA,4:11'' then Some ''Retail UI/border-banner'' else None),
       getVariableById =
         (\<lambda>i. if i = ''VariableID:9:3''
              then Some \<lparr> variableName = ''Retail UI/brand'',
                          variableCollectionId = ''VariableCollectionId:9:0'' \<rparr>
              else None),
       getVariableCollectionById =
         (\<lambda>i. if i = ''VariableCollectionId:9:0'' then Some \<lparr> libraryId = Some ''libA'' \<rparr>
              else None) \<rparr>"

definition defaultSettings :: settings where
  "defaultSettings =
     \<lparr> selectedLibraryId = None, libraryMap = (\<lambda>i. None), styleExceptions = [],
       excludeLockedLayers = True, excludeHiddenLayers = True,
       checkFills = True, checkStrokes = True, checkTexts = True, checkRadius = True,
       checkGaps = True, checkPadding = True \<rparr>"

definition librarySettings :: settings where
  "librarySettings =
     defaultSettings \<lparr> selectedLibraryId := Some ''libB'',
       libraryMap := (\<lambda>i. if i = ''libA'' then Some ''Library A''
                           else if i = ''libB'' then Some ''Library B'' else None) \<rparr>"

definition noFillSettings :: settings where
  "noFillSettings = librarySettings \<lparr> checkFills := False \<rparr>"

definition includeAllSettings :: settings where
  "includeAllSettings =
     librarySettings \<lparr> excludeLockedLayers := False, excludeHiddenLayers := False \<rparr>"

definition onePage :: "node \<Rightarrow> page" where
  "onePage n = \<lparr> selection = [n], pageChildren = [n] \<rparr>"

text \<open>The same host with the variable renamed.\<close>

definition renamedHost :: host where
  "renamedHost =
     tokenHost \<lparr> getVariableById :=
       (\<lambda>i. if i = ''VariableID:9:3''
            then Some \<lparr> variableName = ''Brand/primary'',
                        variableCollectionId = ''VariableCollectionId:9:0'' \<rparr>
            else None) \<rparr>"

definition exceptionSettings :: settings where
  "exceptionSettings = librarySettings \<lparr> styleExceptions := [''Retail UI/*''] \<rparr>"

text \<open>
  A frame with a solid fill and 5001 text layers, and a frame that holds 5000 empty
  frames.
\<close>

definition crowdedFrame :: node where
  "crowdedFrame = Node paintedFrame (Some (replicate 5001 (Node labelNode None)))"

definition nestedFrames :: node where
  "nestedFrames = Node frameNode (Some (replicate 5000 (Node frameNode None)))"

text \<open>
  Issues for the aggregation: a fill issue, a padding issue and a radius issue of one
  node, with repetitions.
\<close>

definition repeatedIssues :: "issue list" where
  "repeatedIssues =
     [createFillIssue paintedFrame, createPaddingIssue paintedFrame ''all'',
      createFillIssue paintedFrame, createRadiusIssue paintedFrame ''uniform'',
      createPaddingIssue paintedFrame ''all'', createRadiusIssue paintedFrame ''uniform'']"

section \<open>Properties of the evaluator\<close>

lemma issue_type_created:
  "issue_type (createFillIssue p) = Fill"
  "issue_type (createStrokeIssue p) = Stroke"
  "issue_type (createTextIssue p) = TextStyle"
  "issue_type (createRadiusIssue p d) = Radius"
  "issue_type (createGapIssue p) = Gap"
  "issue_type (createPaddingIssue p d) = Padding"
  "issue_type (createWrongLibraryIssue p t l n) = t"
  by (simp_all add: createFillIssue_def createStrokeIssue_def createTextIssue_def
      createRadiusIssue_def createGapIssue_def createPaddingIssue_def
      createWrongLibraryIssue_def baseIssue_def)

lemma radiusIssues_fillsCheck: "radiusIssues (fillsCheck p) = []"
  by (simp add: radiusIssues_def fillsCheck_def issue_type_created Let_def
      split: option.splits orMixed.splits list.splits)

lemma radiusIssues_strokesCheck: "radiusIssues (strokesCheck p) = []"
  by (simp add: radiusIssues_def strokesCheck_def issue_type_created Let_def
      split: option.splits list.splits)

lemma radiusIssues_textCheck: "radiusIssues (textCheck p) = []"
  by (simp add: radiusIssues_def textCheck_def issue_type_created Let_def)

lemma radiusIssues_layoutCheck: "radiusIssues (layoutCheck p) = []"
  by (simp add: radiusIssues_def layoutCheck_def issue_type_created Let_def
      split: option.splits)

lemma radiusIssues_radiusCheck: "radiusIssues (fst (radiusCheck p)) = fst (radiusCheck p)"
  by (simp add: radiusIssues_def radiusCheck_def issue_type_created Let_def
      split: option.splits)

lemma radiusIssues_append: "radiusIssues (xs @ ys) = radiusIssues xs @ radiusIssues ys"
  by (simp add: radiusIssues_def)

text \<open>On a node that is neither locked nor hidden the evaluator runs the radius check.\<close>

lemma radiusIssues_evaluated:
  "\<not> locked p \<Longrightarrow> visible p \<Longrightarrow>
   radiusIssues (fst (checkDetachedStyles p log)) = fst (radiusCheck p)"
  by (simp add: checkDetachedStyles_def radiusIssues_append radiusIssues_fillsCheck
      radiusIssues_strokesCheck radiusIssues_textCheck radiusIssues_layoutCheck
      radiusIssues_radiusCheck)

lemma log_evaluated:
  "\<not> locked p \<Longrightarrow> visible p \<Longrightarrow>
   snd (checkDetachedStyles p log) = log @ snd (radiusCheck p)"
  by (simp add: checkDetachedStyles_def)

lemma log_appended:
  "\<exists>new. snd (checkDetachedStyles p log) = log @ new
     \<and> set new \<subseteq> set (snd (radiusCheck p))"
proof (cases "locked p \<or> \<not> visible p")
  case True
  then have "snd (checkDetachedStyles p log) = log @ []"
    by (simp add: checkDetachedStyles_def)
  then show ?thesis by (intro exI [of _ "[]"]) simp
next
  case False
  then have "snd (checkDetachedStyles p log) = log @ snd (radiusCheck p)"
    by (simp add: log_evaluated)
  then show ?thesis by (intro exI [of _ "snd (radiusCheck p)"]) simp
qed

lemma decisionPath_entry [simp]: "decisionPath (addRadiusAuditEntry p r b path) = path"
  by (simp add: addRadiusAuditEntry_def)

lemma isIssue_entry [simp]: "isIssue (addRadiusAuditEntry p r b path) = b"
  by (simp add: addRadiusAuditEntry_def)

subsection \<open>The second branch of the radius decision\<close>

lemma branchB_branchA: "branchB p \<Longrightarrow> branchA p"
  by (simp add: branchA_def branchB_def)

lemma radiusCheck_never_branchB:
  "e \<in> set (snd (radiusCheck p)) \<Longrightarrow>
   decisionPath e \<noteq> ''EXCLUDED: Uniform corners with variables''"
  using branchB_branchA [of p]
  by (auto simp add: radiusCheck_def Let_def split: option.splits if_splits)

text \<open>
  Claim C9. The condition of the second branch of the radius decision implies the
  condition of the first, which is tested before it. So whatever the node and whatever
  the audit log was, the entries one evaluation appends never carry the path label of
  the second branch.
\<close>

theorem branchB_unreachable:
  "(branchB p \<longrightarrow> branchA p)
   \<and> (\<exists>new. snd (checkDetachedStyles p log) = log @ new
         \<and> (\<forall>e \<in> set new. decisionPath e \<noteq> ''EXCLUDED: Uniform corners with variables''))"
proof
  show "branchB p \<longrightarrow> branchA p"
    by (simp add: branchB_branchA)
  obtain new where new: "snd (checkDetachedStyles p log) = log @ new"
    and sub: "set new \<subseteq> set (snd (radiusCheck p))"
    using log_appended by blast
  have "\<forall>e \<in> set new. decisionPath e \<noteq> ''EXCLUDED: Uniform corners with variables''"
    using sub radiusCheck_never_branchB by blast
  with new show "\<exists>new. snd (checkDetachedStyles p log) = log @ new
         \<and> (\<forall>e \<in> set new. decisionPath e \<noteq> ''EXCLUDED: Uniform corners with variables'')"
    by (intro exI [of _ new]) simp
qed

text \<open>
  A node with four equal corners of 8, each bound to a variable, satisfies the
  condition of the second branch; it is excluded by the first.
\<close>

theorem branchB_unreachable_witness:
  "branchB boundCorners \<and> branchA boundCorners
   \<and> map decisionPath (snd (checkDetachedStyles boundCorners []))
       = [''EXCLUDED: Has necessary variable bindings'']"
proof -
  have b: "branchB boundCorners" by code_simp
  have a: "branchA boundCorners"
    using branchB_unreachable [of boundCorners "[]"] b by (elim conjE) simp
  have "map decisionPath (snd (checkDetachedStyles boundCorners []))
       = [''EXCLUDED: Has necessary variable bindings'']" by code_simp
  with a b show ?thesis by simp
qed

lemma visitNode_locked:
  assumes "locked p \<or> \<not> visible p"
    and "isLintableNode st p" and "selectedLibraryId st = Some lib" and "lib \<noteq> []"
  shows "visitNode h st p (issues, log)
         = (issues @ checkLibrarySources h p lib (libraryMap st) (styleExceptions st), log)"
  using assms by (simp add: visitNode_def checkDetachedStyles_def Let_def)

subsection \<open>Locked and hidden nodes\<close>

text \<open>
  Claim C10. For a node that is locked or not visible the evaluator returns the empty
  issue list (and leaves the audit log as it was). When the two exclusion settings are
  off, such a node is kept by the filter on the children, and if it is lintable and a
  library is selected, the visit of the node pushes exactly the issues of the provenance
  checker: that checker has no test on \<open>locked\<close> or \<open>visible\<close>.
\<close>

theorem locked_or_hidden_skipped:
  "locked p \<or> \<not> visible p \<Longrightarrow>
     checkDetachedStyles p log = ([], log)
     \<and> (\<not> excludeLockedLayers st \<and> \<not> excludeHiddenLayers st \<longrightarrow> keepChild st (Node p ch))
     \<and> (isLintableNode st p \<and> selectedLibraryId st = Some lib \<and> lib \<noteq> [] \<longrightarrow>
          visitNode h st p (issues, log)
          = (issues @ checkLibrarySources h p lib (libraryMap st) (styleExceptions st), log))"
proof -
  assume l: "locked p \<or> \<not> visible p"
  then have 1: "checkDetachedStyles p log = ([], log)"
    by (simp add: checkDetachedStyles_def)
  have 2: "\<not> excludeLockedLayers st \<and> \<not> excludeHiddenLayers st \<longrightarrow> keepChild st (Node p ch)"
    by (simp add: keepChild_def)
  have 3: "isLintableNode st p \<and> selectedLibraryId st = Some lib \<and> lib \<noteq> [] \<longrightarrow>
          visitNode h st p (issues, log)
          = (issues @ checkLibrarySources h p lib (libraryMap st) (styleExceptions st), log)"
    using l by (simp add: visitNode_locked)
  from 1 2 3 show ?thesis by simp
qed

text \<open>
  A locked rectangle whose fill style comes from library A, scanned with library B
  selected and both exclusions off.
\<close>

theorem locked_or_hidden_skipped_witness:
  "locked lockedStyled
   \<and> checkDetachedStyles lockedStyled [] = ([], [])
   \<and> keepChild includeAllSettings (Node lockedStyled None)
   \<and> isLintableNode includeAllSettings lockedStyled
   \<and> map message (fst (visitNode emptyHost includeAllSettings lockedStyled ([], [])))
       = [''Wrong library/Color Fill'']"
proof -
  have l: "locked lockedStyled" by code_simp
  have s: "\<not> excludeLockedLayers includeAllSettings \<and> \<not> excludeHiddenLayers includeAllSettings"
    by code_simp
  have v: "isLintableNode includeAllSettings lockedStyled
      \<and> selectedLibraryId includeAllSettings = Some ''libB'' \<and> ''libB'' \<noteq> []"
    by code_simp
  have t: "checkDetachedStyles lockedStyled [] = ([], [])
     \<and> (\<not> excludeLockedLayers includeAllSettings \<and> \<not> excludeHiddenLayers includeAllSettings
          \<longrightarrow> keepChild includeAllSettings (Node lockedStyled None))
     \<and> (isLintableNode includeAllSettings lockedStyled
          \<and> selectedLibraryId includeAllSettings = Some ''libB'' \<and> ''libB'' \<noteq> [] \<longrightarrow>
          visitNode emptyHost includeAllSettings lockedStyled ([], [])
          = ([] @ checkLibrarySources emptyHost lockedStyled ''libB''
               (libraryMap includeAllSettings) (styleExceptions includeAllSettings), []))"
    using l by (intro locked_or_hidden_skipped) simp
  have c: "checkDetachedStyles lockedStyled [] = ([], [])" using t by simp
  have k: "keepChild includeAllSettings (Node lockedStyled None)" using t s by simp
  have "visitNode emptyHost includeAllSettings lockedStyled ([], [])
      = ([] @ checkLibrarySources emptyHost lockedStyled ''libB''
           (libraryMap includeAllSettings) (styleExceptions includeAllSettings), [])"
    using t v by simp
  moreover have "map message (checkLibrarySources emptyHost lockedStyled ''libB''
           (libraryMap includeAllSettings) (styleExceptions includeAllSettings))
       = [''Wrong library/Color Fill'']"
    by code_simp
  ultimately have m: "map message (fst (visitNode emptyHost includeAllSettings lockedStyled ([], [])))
       = [''Wrong library/Color Fill'']" by simp
  from l c k v m show ?thesis by simp
qed

subsection \<open>The aggregate radius\<close>

lemma radiusCheck_branchC:
  assumes "cornerRadius p = Some r" "\<not> branchA p" "\<not> branchB p" "branchC p r"
  shows "radiusCheck p = ([createRadiusIssue p ''uniform''],
      [addRadiusAuditEntry p r True ''ISSUE: Uniform radius without variables''])"
  using assms by (simp add: radiusCheck_def)

text \<open>
  Claim C6, amended. For every node that is neither locked nor hidden, that is not
  excluded by the first or the second branch, and whose aggregate radius is a positive
  number without variable binding: the evaluator emits exactly one radius issue, its
  details are \<open>uniform\<close>, and exactly one audit entry is appended, marked as an issue,
  with the path label of the uniform radius.
\<close>

theorem uniform_radius_issue:
  assumes "\<not> locked p" and "visible p"
    and "cornerRadius p = Some (Val n)" and "0 < n" and "\<not> hasCornerRadiusVariable p"
    and "\<not> branchA p" and "\<not> branchB p"
  shows "radiusIssues (fst (checkDetachedStyles p log)) = [createRadiusIssue p ''uniform'']
    \<and> details (createRadiusIssue p ''uniform'') = Some ''uniform''
    \<and> (\<exists>e. snd (checkDetachedStyles p log) = log @ [e] \<and> isIssue e
          \<and> decisionPath e = ''ISSUE: Uniform radius without variables'')"
proof -
  have c: "branchC p (Val n)"
    using assms(4,5) by (simp add: branchC_def)
  have r: "radiusCheck p = ([createRadiusIssue p ''uniform''],
      [addRadiusAuditEntry p (Val n) True ''ISSUE: Uniform radius without variables''])"
    using radiusCheck_branchC [OF assms(3) assms(6) assms(7) c] .
  have 1: "radiusIssues (fst (checkDetachedStyles p log)) = [createRadiusIssue p ''uniform'']"
    using assms(1,2) r by (simp add: radiusIssues_evaluated)
  have 2: "details (createRadiusIssue p ''uniform'') = Some ''uniform''"
    by (simp add: createRadiusIssue_def)
  have "snd (checkDetachedStyles p log)
      = log @ [addRadiusAuditEntry p (Val n) True ''ISSUE: Uniform radius without variables'']"
    using assms(1,2) r by (simp add: log_evaluated)
  then have 3: "\<exists>e. snd (checkDetachedStyles p log) = log @ [e] \<and> isIssue e
          \<and> decisionPath e = ''ISSUE: Uniform radius without variables''"
    by (intro exI [of _ "addRadiusAuditEntry p (Val n) True
          ''ISSUE: Uniform radius without variables''"]) simp
  from 1 2 3 show ?thesis by simp
qed

text \<open>A rectangle with aggregate radius 8 and no binding.\<close>

theorem uniform_radius_issue_witness:
  "\<not> locked roundedCard \<and> visible roundedCard \<and> cornerRadius roundedCard = Some (Val 8)
   \<and> map details (radiusIssues (fst (checkDetachedStyles roundedCard []))) = [Some ''uniform'']
   \<and> (\<exists>e. snd (checkDetachedStyles roundedCard []) = [e] \<and> isIssue e
          \<and> decisionPath e = ''ISSUE: Uniform radius without variables'')"
proof -
  have h: "\<not> locked roundedCard" "visible roundedCard"
    "cornerRadius roundedCard = Some (Val 8)" "(0::int) < 8"
    "\<not> hasCornerRadiusVariable roundedCard" "\<not> branchA roundedCard" "\<not> branchB roundedCard"
    by code_simp+
  note t = uniform_radius_issue [OF h, of "[]"]
  from t have "map details (radiusIssues (fst (checkDetachedStyles roundedCard [])))
     = [Some ''uniform'']" by simp
  moreover from t have "\<exists>e. snd (checkDetachedStyles roundedCard []) = [e] \<and> isIssue e
          \<and> decisionPath e = ''ISSUE: Uniform radius without variables''" by simp
  ultimately show ?thesis using h by simp
qed

text \<open>
  Claim C6 as stated fails on a locked node: with the exclusion of locked layers off it
  is lintable, neither of the first two branches excludes it, its aggregate radius is 8
  and unbound, and the evaluator emits no radius issue and no audit entry for it.
\<close>

theorem uniform_radius_locked_counterexample:
  "isLintableNode includeAllSettings lockedRounded
   \<and> \<not> branchA lockedRounded \<and> \<not> branchB lockedRounded
   \<and> cornerRadius lockedRounded = Some (Val 8)
   \<and> \<not> hasCornerRadiusVariable lockedRounded
   \<and> radiusIssues (fst (checkDetachedStyles lockedRounded [])) = []
   \<and> snd (checkDetachedStyles lockedRounded []) = []"
  by code_simp

subsection \<open>The audit entries of one evaluation\<close>

lemma radiusCheck_one_entry:
  assumes "cornerRadius p = Some r"
    and "hasIndividualCornerRadii p \<or> branchA p \<or> branchC p r"
  shows "\<exists>e. snd (radiusCheck p) = [e]"
  using assms by (auto simp add: radiusCheck_def Let_def)

text \<open>
  Claim C3, amended. One evaluation of a node that is neither locked nor hidden and
  has a corner radius appends exactly one audit entry when the node has the four corner
  properties, or is excluded by the first branch, or has a positive unbound aggregate
  radius. One evaluation of a locked or hidden node appends none.
\<close>

theorem audit_entry_per_evaluation:
  "(\<not> locked p \<and> visible p \<and> cornerRadius p = Some r
      \<and> (hasIndividualCornerRadii p \<or> branchA p \<or> branchC p r)
      \<longrightarrow> (\<exists>e. snd (checkDetachedStyles p log) = log @ [e]))
   \<and> (locked p \<or> \<not> visible p \<longrightarrow> snd (checkDetachedStyles p log) = log)"
proof (intro conjI impI)
  assume a: "\<not> locked p \<and> visible p \<and> cornerRadius p = Some r
      \<and> (hasIndividualCornerRadii p \<or> branchA p \<or> branchC p r)"
  then obtain e where "snd (radiusCheck p) = [e]"
    using radiusCheck_one_entry [of p r] by blast
  with a have "snd (checkDetachedStyles p log) = log @ [e]"
    by (simp add: log_evaluated)
  then show "\<exists>e. snd (checkDetachedStyles p log) = log @ [e]" ..
next
  assume "locked p \<or> \<not> visible p"
  then show "snd (checkDetachedStyles p log) = log"
    by (simp add: checkDetachedStyles_def)
qed

text \<open>A rectangle with four corners of 0, and a locked rectangle with radius 8.\<close>

theorem audit_entry_per_evaluation_witness:
  "hasIndividualCornerRadii squareCard
   \<and> (\<exists>e. snd (checkDetachedStyles squareCard []) = [e])
   \<and> locked lockedRounded
   \<and> snd (checkDetachedStyles lockedRounded []) = []"
proof -
  have h: "\<not> locked squareCard \<and> visible squareCard \<and> cornerRadius squareCard = Some (Val 0)
      \<and> (hasIndividualCornerRadii squareCard \<or> branchA squareCard \<or> branchC squareCard (Val 0))"
    by code_simp
  have i: "hasIndividualCornerRadii squareCard" by code_simp
  have l: "locked lockedRounded" by code_simp
  have 1: "\<exists>e. snd (checkDetachedStyles squareCard []) = [] @ [e]"
    using audit_entry_per_evaluation [of squareCard "Val 0" "[]"] h by blast
  have 2: "snd (checkDetachedStyles lockedRounded []) = []"
    using audit_entry_per_evaluation [of lockedRounded "Val 8" "[]"] l by blast
  from 1 2 i l show ?thesis by simp
qed

text \<open>
  Claim C3 as stated fails on a hidden node: with the exclusion of hidden layers off it
  is lintable and has a corner radius, and its evaluation appends no audit entry.
\<close>

theorem audit_entry_hidden_counterexample:
  "isLintableNode includeAllSettings hiddenRounded
   \<and> cornerRadius hiddenRounded = Some (Val 8)
   \<and> checkDetachedStyles hiddenRounded [] = ([], [])"
  by code_simp

text \<open>
  The case the amended claim leaves open: an evaluated node without the four corner
  properties that no earlier branch takes. An ellipse with radius 0 and no binding gets
  no audit entry, because the last test of the decision has no \<^verbatim>\<open>else\<close>.
\<close>

lemma radiusCheck_no_entry:
  "cornerRadius ellipseNode = Some (Val 0) \<and> \<not> locked ellipseNode \<and> visible ellipseNode
   \<and> \<not> hasIndividualCornerRadii ellipseNode
   \<and> checkDetachedStyles ellipseNode [] = ([], [])"
  by code_simp

subsection \<open>The individual corners\<close>

lemma corners_defined:
  assumes "hasIndividualCornerRadii p"
  obtains a b c d where "topLeftRadius p = Some a" "topRightRadius p = Some b"
    "bottomLeftRadius p = Some c" "bottomRightRadius p = Some d"
    "topLeft p = Some a" "topRight p = Some b" "bottomLeft p = Some c" "bottomRight p = Some d"
  using assms
  by (auto simp add: hasIndividualCornerRadii_def topLeft_def topRight_def bottomLeft_def
      bottomRight_def)

lemma missingBindings_filter:
  assumes "hasIndividualCornerRadii p"
  shows "missingBindings p
    = map (\<lambda>(label, v, bound). label @ '': '' @ showInt (the v))
        (filter (\<lambda>(label, v, bound). positive v \<and> \<not> bound)
           [(''topLeft'', topLeftRadius p, hasTopLeftVariable p),
            (''topRight'', topRightRadius p, hasTopRightVariable p),
            (''bottomLeft'', bottomLeftRadius p, hasBottomLeftVariable p),
            (''bottomRight'', bottomRightRadius p, hasBottomRightVariable p)])"
proof -
  obtain a b c d where "topLeftRadius p = Some a" "topRightRadius p = Some b"
    "bottomLeftRadius p = Some c" "bottomRightRadius p = Some d"
    "topLeft p = Some a" "topRight p = Some b" "bottomLeft p = Some c" "bottomRight p = Some d"
    using corners_defined [OF assms] .
  then show ?thesis
    by (simp add: missingBindings_def missingCorner_def positive_def)
qed

lemma uniform_iff_equal:
  assumes "hasIndividualCornerRadii p" and "missingBindings p \<noteq> []"
  shows "hasUniformIndividualCorners p
    \<longleftrightarrow> (topLeftRadius p = topRightRadius p \<and> topRightRadius p = bottomLeftRadius p
         \<and> bottomLeftRadius p = bottomRightRadius p)"
proof -
  obtain a b c d where v: "topLeftRadius p = Some a" "topRightRadius p = Some b"
    "bottomLeftRadius p = Some c" "bottomRightRadius p = Some d"
    "topLeft p = Some a" "topRight p = Some b" "bottomLeft p = Some c" "bottomRight p = Some d"
    using corners_defined [OF assms(1)] .
  have "0 < a \<or> 0 < b \<or> 0 < c \<or> 0 < d"
    using assms(2) v by (auto simp add: missingBindings_def missingCorner_def split: if_splits)
  then show ?thesis
    using assms(1) v by (auto simp add: hasUniformIndividualCorners_def positive_def)
qed

lemma radiusCheck_branchD:
  assumes "cornerRadius p = Some r" "\<not> branchA p" "\<not> branchB p" "\<not> branchC p r"
    "hasIndividualCornerRadii p" "missingBindings p \<noteq> []"
  shows "fst (radiusCheck p)
    = [createRadiusIssue p (if hasUniformIndividualCorners p then ''uniform''
         else ''mixed ('' @ joinComma (missingBindings p) @ '')'')]"
  using assms by (simp add: radiusCheck_def Let_def)

text \<open>
  Claim C7. When the evaluation of a node reaches the branch of the individual corners,
  the list of missing bindings is the list of the corners with a value above 0 and no
  variable binding, in the order top left, top right, bottom left, bottom right, each
  rendered as corner name, colon, value. If that list is not empty, exactly one radius
  issue is emitted; its details are \<open>uniform\<close> when the four corners are equal and
  otherwise \<open>mixed (...)\<close> with the rendered offending corners, separated by commas.
\<close>

theorem individual_corners_issue:
  assumes "reachesBranchD p radius"
  shows "missingBindings p
      = map (\<lambda>(label, v, bound). label @ '': '' @ showInt (the v))
          (filter (\<lambda>(label, v, bound). positive v \<and> \<not> bound)
             [(''topLeft'', topLeftRadius p, hasTopLeftVariable p),
              (''topRight'', topRightRadius p, hasTopRightVariable p),
              (''bottomLeft'', bottomLeftRadius p, hasBottomLeftVariable p),
              (''bottomRight'', bottomRightRadius p, hasBottomRightVariable p)])
    \<and> (missingBindings p \<noteq> [] \<longrightarrow>
         radiusIssues (fst (checkDetachedStyles p log))
         = [createRadiusIssue p
              (if topLeftRadius p = topRightRadius p \<and> topRightRadius p = bottomLeftRadius p
                  \<and> bottomLeftRadius p = bottomRightRadius p
               then ''uniform''
               else ''mixed ('' @ joinComma (missingBindings p) @ '')'')])"
proof
  have i: "hasIndividualCornerRadii p"
    using assms by (simp add: reachesBranchD_def)
  show "missingBindings p
      = map (\<lambda>(label, v, bound). label @ '': '' @ showInt (the v))
          (filter (\<lambda>(label, v, bound). positive v \<and> \<not> bound)
             [(''topLeft'', topLeftRadius p, hasTopLeftVariable p),
              (''topRight'', topRightRadius p, hasTopRightVariable p),
              (''bottomLeft'', bottomLeftRadius p, hasBottomLeftVariable p),
              (''bottomRight'', bottomRightRadius p, hasBottomRightVariable p)])"
    using i by (rule missingBindings_filter)
  show "missingBindings p \<noteq> [] \<longrightarrow>
         radiusIssues (fst (checkDetachedStyles p log))
         = [createRadiusIssue p
              (if topLeftRadius p = topRightRadius p \<and> topRightRadius p = bottomLeftRadius p
                  \<and> bottomLeftRadius p = bottomRightRadius p
               then ''uniform''
               else ''mixed ('' @ joinComma (missingBindings p) @ '')'')]"
  proof
    assume m: "missingBindings p \<noteq> []"
    have e: "radiusIssues (fst (checkDetachedStyles p log)) = fst (radiusCheck p)"
      using assms by (simp add: reachesBranchD_def radiusIssues_evaluated)
    have "fst (radiusCheck p)
      = [createRadiusIssue p (if hasUniformIndividualCorners p then ''uniform''
           else ''mixed ('' @ joinComma (missingBindings p) @ '')'')]"
      using assms m by (intro radiusCheck_branchD [of p radius]) (simp_all add: reachesBranchD_def)
    with e show "radiusIssues (fst (checkDetachedStyles p log))
         = [createRadiusIssue p
              (if topLeftRadius p = topRightRadius p \<and> topRightRadius p = bottomLeftRadius p
                  \<and> bottomLeftRadius p = bottomRightRadius p
               then ''uniform''
               else ''mixed ('' @ joinComma (missingBindings p) @ '')'')]"
      by (simp only: uniform_iff_equal [OF i m])
  qed
qed

text \<open>The corners 8, 8, 0, 8 without bindings, the example of the claim.\<close>

theorem individual_corners_issue_witness:
  "reachesBranchD mixedCorners Mixed
   \<and> missingBindings mixedCorners = [''topLeft: 8'', ''topRight: 8'', ''bottomRight: 8'']
   \<and> map details (radiusIssues (fst (checkDetachedStyles mixedCorners [])))
       = [Some ''mixed (topLeft: 8, topRight: 8, bottomRight: 8)'']"
proof -
  have r: "reachesBranchD mixedCorners Mixed" by code_simp
  have m: "missingBindings mixedCorners = [''topLeft: 8'', ''topRight: 8'', ''bottomRight: 8'']"
    by code_simp
  have n: "\<not> (topLeftRadius mixedCorners = topRightRadius mixedCorners
        \<and> topRightRadius mixedCorners = bottomLeftRadius mixedCorners
        \<and> bottomLeftRadius mixedCorners = bottomRightRadius mixedCorners)"
    by code_simp
  have t: "missingBindings mixedCorners \<noteq> [] \<longrightarrow>
      radiusIssues (fst (checkDetachedStyles mixedCorners []))
      = [createRadiusIssue mixedCorners
           (if topLeftRadius mixedCorners = topRightRadius mixedCorners
               \<and> topRightRadius mixedCorners = bottomLeftRadius mixedCorners
               \<and> bottomLeftRadius mixedCorners = bottomRightRadius mixedCorners
            then ''uniform''
            else ''mixed ('' @ joinComma (missingBindings mixedCorners) @ '')'')]"
    using individual_corners_issue [OF r, of "[]"] by (rule conjunct2)
  have ne: "missingBindings mixedCorners \<noteq> []"
    by (simp only: m) simp
  from t ne have "radiusIssues (fst (checkDetachedStyles mixedCorners []))
      = [createRadiusIssue mixedCorners
           (if topLeftRadius mixedCorners = topRightRadius mixedCorners
               \<and> topRightRadius mixedCorners = bottomLeftRadius mixedCorners
               \<and> bottomLeftRadius mixedCorners = bottomRightRadius mixedCorners
            then ''uniform''
            else ''mixed ('' @ joinComma (missingBindings mixedCorners) @ '')'')]"
    by (rule mp)
  then have "radiusIssues (fst (checkDetachedStyles mixedCorners []))
      = [createRadiusIssue mixedCorners
           (''mixed ('' @ joinComma (missingBindings mixedCorners) @ '')'')]"
    using n by (simp only: if_False)
  then have "map details (radiusIssues (fst (checkDetachedStyles mixedCorners [])))
      = [Some (''mixed ('' @ joinComma (missingBindings mixedCorners) @ '')'')]"
    by (simp add: createRadiusIssue_def)
  with m have "map details (radiusIssues (fst (checkDetachedStyles mixedCorners [])))
       = [Some ''mixed (topLeft: 8, topRight: 8, bottomRight: 8)'']"
    by simp
  with r m show ?thesis by simp
qed

section \<open>Properties of the scan\<close>

text \<open>
  The visit of a node and the walk of a tree only append to the issue list and to the
  audit log, and what they append does not depend on what the two lists held.
\<close>

lemma fold_append_acc:
  assumes "\<And>c acc. c \<in> set cs \<Longrightarrow> f c acc = (fst acc @ F c, snd acc @ G c)"
  shows "fold f cs acc = (fst acc @ concat (map F cs), snd acc @ concat (map G cs))"
  using assms
proof (induction cs arbitrary: acc)
  case Nil
  then show ?case by simp
next
  case (Cons c cs)
  have "fold f (c # cs) acc = fold f cs (f c acc)" by simp
  also have "f c acc = (fst acc @ F c, snd acc @ G c)"
    using Cons.prems by simp
  also have "fold f cs (fst acc @ F c, snd acc @ G c)
      = (fst (fst acc @ F c, snd acc @ G c) @ concat (map F cs),
         snd (fst acc @ F c, snd acc @ G c) @ concat (map G cs))"
    using Cons.prems by (intro Cons.IH) simp
  finally show ?case by simp
qed

lemma visitNode_append:
  "visitNode h st p acc
   = (fst acc @ fst (visitNode h st p ([], [])), snd acc @ snd (visitNode h st p ([], [])))"
  by (simp add: visitNode_def checkDetachedStyles_def Let_def)

lemma traverse_append_ex:
  "\<exists>I L. \<forall>acc. traverse h st n acc = (fst acc @ I, snd acc @ L)"
proof (induction n)
  case (Node p ch)
  show ?case
  proof (cases ch)
    case None
    have "\<forall>acc. traverse h st (Node p ch) acc
        = (fst acc @ fst (visitNode h st p ([], [])), snd acc @ snd (visitNode h st p ([], [])))"
    proof
      fix acc
      have "traverse h st (Node p ch) acc = visitNode h st p acc"
        using None by simp
      also have "\<dots> = (fst acc @ fst (visitNode h st p ([], [])),
          snd acc @ snd (visitNode h st p ([], [])))"
        by (rule visitNode_append)
      finally show "traverse h st (Node p ch) acc
        = (fst acc @ fst (visitNode h st p ([], [])), snd acc @ snd (visitNode h st p ([], [])))" .
    qed
    then show ?thesis by blast
  next
    case (Some cs)
    have "\<forall>c \<in> set (filter (keepChild st) cs).
        \<exists>I L. \<forall>acc. traverse h st c acc = (fst acc @ I, snd acc @ L)"
      using Node.IH Some by auto
    then have "\<forall>c \<in> set (filter (keepChild st) cs).
        \<exists>IL. \<forall>acc. traverse h st c acc = (fst acc @ fst IL, snd acc @ snd IL)"
      by (metis fst_conv snd_conv)
    then obtain FG where FG: "\<forall>c \<in> set (filter (keepChild st) cs).
        \<forall>acc. traverse h st c acc = (fst acc @ fst (FG c), snd acc @ snd (FG c))"
      by metis
    have FG': "traverse h st c acc = (fst acc @ fst (FG c), snd acc @ snd (FG c))"
      if "c \<in> set (filter (keepChild st) cs)" for c acc
      using FG that by blast
    have "\<forall>acc. traverse h st (Node p ch) acc
        = (fst acc @ (fst (visitNode h st p ([], []))
                       @ concat (map (\<lambda>c. fst (FG c)) (filter (keepChild st) cs))),
           snd acc @ (snd (visitNode h st p ([], []))
                       @ concat (map (\<lambda>c. snd (FG c)) (filter (keepChild st) cs))))"
    proof
      fix acc
      have "traverse h st (Node p ch) acc
          = fold (traverse h st) (filter (keepChild st) cs) (visitNode h st p acc)"
        using Some by simp
      also have "\<dots> = (fst (visitNode h st p acc)
                         @ concat (map (\<lambda>c. fst (FG c)) (filter (keepChild st) cs)),
                       snd (visitNode h st p acc)
                         @ concat (map (\<lambda>c. snd (FG c)) (filter (keepChild st) cs)))"
        by (rule fold_append_acc) (rule FG')
      also have "visitNode h st p acc = (fst acc @ fst (visitNode h st p ([], [])),
           snd acc @ snd (visitNode h st p ([], [])))"
        by (rule visitNode_append)
      finally show "traverse h st (Node p ch) acc
        = (fst acc @ (fst (visitNode h st p ([], []))
                       @ concat (map (\<lambda>c. fst (FG c)) (filter (keepChild st) cs))),
           snd acc @ (snd (visitNode h st p ([], []))
                       @ concat (map (\<lambda>c. snd (FG c)) (filter (keepChild st) cs))))"
        by simp
    qed
    then show ?thesis by blast
  qed
qed

lemma traverse_append:
  "traverse h st n acc
   = (fst acc @ fst (traverse h st n ([], [])), snd acc @ snd (traverse h st n ([], [])))"
proof -
  obtain I L where IL: "\<forall>acc. traverse h st n acc = (fst acc @ I, snd acc @ L)"
    using traverse_append_ex by blast
  have e: "traverse h st n ([], []) = (I, L)"
    using IL [rule_format, of "([], [])"] by simp
  have "traverse h st n acc = (fst acc @ I, snd acc @ L)"
    using IL by (rule spec)
  with e show ?thesis by simp
qed

lemma fold_traverse_append:
  "fold (traverse h st) ns acc
   = (fst acc @ concat (map (\<lambda>n. fst (traverse h st n ([], []))) ns),
      snd acc @ concat (map (\<lambda>n. snd (traverse h st n ([], []))) ns))"
  by (intro fold_append_acc) (rule traverse_append)

lemma scanForIssues_log:
  "scanForIssues h st pg log
   = (fst (scanForIssues h st pg []), log @ snd (scanForIssues h st pg []))"
  by (simp add: scanForIssues_def Let_def fold_traverse_append [of h st _ "([], log)"]
      fold_traverse_append [of h st _ "([], [])"])

subsection \<open>The audit log across scans\<close>

text \<open>
  Claim C2. A scan does not clear the audit log. Its issues are those of a scan that
  starts from the empty log, so scanning again gives the same issues; its log is the
  log it found followed by the entries of such a scan, so a second scan of the same
  page doubles the log.
\<close>

theorem audit_log_not_cleared:
  "scanForIssues h st pg log
   = (fst (scanForIssues h st pg []), log @ snd (scanForIssues h st pg []))"
  by (rule scanForIssues_log)

text \<open>A page with one rectangle of radius 8, scanned twice.\<close>

theorem audit_log_not_cleared_witness:
  "map decisionPath (snd (scanForIssues emptyHost defaultSettings (onePage (Node roundedCard None)) []))
     = [''ISSUE: Uniform radius without variables'']
   \<and> map decisionPath
        (snd (scanForIssues emptyHost defaultSettings (onePage (Node roundedCard None))
           (snd (scanForIssues emptyHost defaultSettings (onePage (Node roundedCard None)) []))))
     = [''ISSUE: Uniform radius without variables'', ''ISSUE: Uniform radius without variables'']
   \<and> fst (scanForIssues emptyHost defaultSettings (onePage (Node roundedCard None))
           (snd (scanForIssues emptyHost defaultSettings (onePage (Node roundedCard None)) [])))
     = fst (scanForIssues emptyHost defaultSettings (onePage (Node roundedCard None)) [])"
proof -
  let ?first = "scanForIssues emptyHost defaultSettings (onePage (Node roundedCard None)) []"
  let ?second = "scanForIssues emptyHost defaultSettings (onePage (Node roundedCard None))
      (snd ?first)"
  have 1: "map decisionPath (snd ?first) = [''ISSUE: Uniform radius without variables'']"
    by code_simp
  have 2: "?second = (fst ?first, snd ?first @ snd ?first)"
    by (rule audit_log_not_cleared)
  from 2 have "map decisionPath (snd ?second)
      = map decisionPath (snd ?first) @ map decisionPath (snd ?first)"
    by simp
  with 1 have 3: "map decisionPath (snd ?second)
      = [''ISSUE: Uniform radius without variables'', ''ISSUE: Uniform radius without variables'']"
    by simp
  from 2 have 4: "fst ?second = fst ?first" by simp
  from 1 3 4 show ?thesis by simp
qed

subsection \<open>The category settings\<close>

text \<open>
  Claim C1. With the fill category switched off and library B selected, the scan of a
  rectangle whose fill style comes from library A reports one issue, of category fill:
  the issues of the provenance checker are pushed without the filter that the issues of
  the evaluator pass.
\<close>

theorem wrong_library_issue_not_filtered:
  "checkFills noFillSettings = False
   \<and> map issue_type (fst (scanForIssues emptyHost noFillSettings (onePage (Node styledCard None)) []))
       = [Fill]
   \<and> map message (fst (scanForIssues emptyHost noFillSettings (onePage (Node styledCard None)) []))
       = [''Wrong library/Color Fill'']"
  by code_simp

text \<open>The scan of that rectangle reports one issue.\<close>

theorem wrong_library_issue_not_filtered_witness:
  "length (fst (scanForIssues emptyHost noFillSettings (onePage (Node styledCard None)) [])) = 1"
proof -
  have "map issue_type
      (fst (scanForIssues emptyHost noFillSettings (onePage (Node styledCard None)) [])) = [Fill]"
    using wrong_library_issue_not_filtered by (elim conjE)
  then have "length (map issue_type
      (fst (scanForIssues emptyHost noFillSettings (onePage (Node styledCard None)) [])))
      = length [Fill]"
    by (rule arg_cong)
  then show ?thesis by simp
qed

text \<open>
  The issues of the evaluator do pass the filter: an issue pushed by the visit of a node
  whose category is switched off comes from the provenance checker.
\<close>

lemma visitNode_disabled_category:
  assumes "i \<in> set (fst (visitNode h st p ([], log)))" and "\<not> shouldInclude st i"
  shows "\<exists>lib. selectedLibraryId st = Some lib
    \<and> i \<in> set (checkLibrarySources h p lib (libraryMap st) (styleExceptions st))"
proof (cases "selectedLibraryId st")
  case None
  with assms show ?thesis
    by (auto simp add: visitNode_def Let_def split: if_splits)
next
  case (Some lib)
  with assms have "i \<in> set (checkLibrarySources h p lib (libraryMap st) (styleExceptions st))"
    by (auto simp add: visitNode_def Let_def split: if_splits)
  with Some show ?thesis by simp
qed

subsection \<open>Exception patterns in the provenance checker\<close>

lemma styleSourceCheck_exception:
  assumes "getStyleById h styleId = Some styleName"
    and "matchesExceptions styleName exceptions"
  shows "styleSourceCheck h p lib libMap exceptions t (Some (Val styleId)) = []"
proof -
  have "styleName \<noteq> []"
    using assms(2) by (auto simp add: matchesExceptions_def split: if_splits)
  with assms show ?thesis
    by (simp add: styleSourceCheck_def Let_def)
qed

lemma variableSourceCheck_name:
  assumes "getVariableCollectionById h' = getVariableCollectionById h"
    and "\<forall>i. map_option variableCollectionId (getVariableById h' i)
           = map_option variableCollectionId (getVariableById h i)"
  shows "variableSourceCheck h' p lib libMap entry = variableSourceCheck h p lib libMap entry"
proof (cases "bindingId (snd entry)")
  case None
  then show ?thesis by (simp add: variableSourceCheck_def)
next
  case (Some varId)
  have m: "map_option variableCollectionId (getVariableById h' varId)
      = map_option variableCollectionId (getVariableById h varId)"
    using assms(2) by (rule spec)
  show ?thesis
  proof (cases "getVariableById h varId")
    case None
    with m have "getVariableById h' varId = None" by simp
    with None Some show ?thesis by (simp add: variableSourceCheck_def)
  next
    case (Some v)
    with m obtain v' where v': "getVariableById h' varId = Some v'"
      and c: "variableCollectionId v' = variableCollectionId v"
      by (cases "getVariableById h' varId") auto
    from Some v' c \<open>bindingId (snd entry) = Some varId\<close> assms(1) show ?thesis
      by (simp add: variableSourceCheck_def)
  qed
qed

text \<open>
  Claim C5, amended. For a bound style (fill, stroke, text or effect) whose resolved
  name matches an exception pattern, the provenance checker emits no issue, whatever
  the library. For a bound variable the name is not read: two hosts that resolve the
  variables to the same collections, and the collections to the same libraries, give
  the same issues, whatever the variables are called.
\<close>

theorem exception_applies_to_styles:
  "(getStyleById h styleId = Some styleName \<and> matchesExceptions styleName exceptions
      \<longrightarrow> styleSourceCheck h p lib libMap exceptions t (Some (Val styleId)) = [])
   \<and> (getVariableCollectionById h' = getVariableCollectionById h
       \<and> (\<forall>i. map_option variableCollectionId (getVariableById h' i)
               = map_option variableCollectionId (getVariableById h i))
      \<longrightarrow> variableSourceCheck h' p lib libMap entry = variableSourceCheck h p lib libMap entry)"
  using styleSourceCheck_exception variableSourceCheck_name by blast

text \<open>
  A fill style of library A named \<open>Retail UI/border-banner\<close> under the pattern
  \<open>Retail UI/*\<close>, and a variable that is renamed.
\<close>

theorem exception_applies_to_styles_witness:
  "getStyleById tokenHost ''S:libA,4:11'' = Some ''Retail UI/border-banner''
   \<and> matchesExceptions ''Retail UI/border-banner'' [''Retail UI/*'']
   \<and> styleSourceCheck tokenHost styledCard ''libB'' (libraryMap librarySettings)
        [''Retail UI/*''] Fill (Some (Val ''S:libA,4:11'')) = []
   \<and> variableSourceCheck renamedHost tokenCard ''libB'' (libraryMap librarySettings)
        (''paddingLeft'', VariableAlias ''VariableID:9:3'')
      = variableSourceCheck tokenHost tokenCard ''libB'' (libraryMap librarySettings)
        (''paddingLeft'', VariableAlias ''VariableID:9:3'')"
proof -
  have s: "getStyleById tokenHost ''S:libA,4:11'' = Some ''Retail UI/border-banner''
      \<and> matchesExceptions ''Retail UI/border-banner'' [''Retail UI/*'']"
    by code_simp
  have v: "getVariableCollectionById renamedHost = getVariableCollectionById tokenHost
      \<and> (\<forall>i. map_option variableCollectionId (getVariableById renamedHost i)
              = map_option variableCollectionId (getVariableById tokenHost i))"
    by (simp add: renamedHost_def tokenHost_def)
  note t1 = exception_applies_to_styles [of tokenHost "''S:libA,4:11''"
      "''Retail UI/border-banner''" "[''Retail UI/*'']" styledCard "''libB''"
      "libraryMap librarySettings" Fill renamedHost
      "(''paddingLeft'', VariableAlias ''VariableID:9:3'')"]
  note t2 = exception_applies_to_styles [of tokenHost "''S:libA,4:11''"
      "''Retail UI/border-banner''" "[''Retail UI/*'']" tokenCard "''libB''"
      "libraryMap librarySettings" Fill renamedHost
      "(''paddingLeft'', VariableAlias ''VariableID:9:3'')"]
  from t1 s have 1: "styleSourceCheck tokenHost styledCard ''libB'' (libraryMap librarySettings)
        [''Retail UI/*''] Fill (Some (Val ''S:libA,4:11'')) = []"
    by blast
  from t2 v have 2: "variableSourceCheck renamedHost tokenCard ''libB''
        (libraryMap librarySettings) (''paddingLeft'', VariableAlias ''VariableID:9:3'')
      = variableSourceCheck tokenHost tokenCard ''libB'' (libraryMap librarySettings)
        (''paddingLeft'', VariableAlias ''VariableID:9:3'')"
    by blast
  from s 1 2 show ?thesis by simp
qed

text \<open>
  Claim C5 as stated fails on a bound variable: the variable bound to the left padding
  is named \<open>Retail UI/brand\<close>, which matches the pattern \<open>Retail UI/*\<close>, it belongs
  to library A while library B is selected, and the checker reports it.
\<close>

theorem exception_variable_counterexample:
  "map_option variableName (getVariableById tokenHost ''VariableID:9:3'') = Some ''Retail UI/brand''
   \<and> matchesExceptions ''Retail UI/brand'' (styleExceptions exceptionSettings)
   \<and> boundVariables tokenCard = Some [(''paddingLeft'', VariableAlias ''VariableID:9:3'')]
   \<and> map message (checkLibrarySources tokenHost tokenCard ''libB''
        (libraryMap exceptionSettings) (styleExceptions exceptionSettings))
      = [''Wrong library/Padding'']
   \<and> map sourceLibraryId (checkLibrarySources tokenHost tokenCard ''libB''
        (libraryMap exceptionSettings) (styleExceptions exceptionSettings))
      = [Some ''libA'']"
  by code_simp

subsection \<open>The size cap of a rescan\<close>

lemma countFrames_other:"\<not> isFrameLike p \<Longrightarrow> countFrames (Node p ch) k = k"
  by simp

lemma countFrames_leaf: "isFrameLike p \<Longrightarrow> countFrames (Node p None) k = k + 1"
  by simp

lemma fold_countFrames_others:
  "\<not> isFrameLike p \<Longrightarrow> fold countFrames (replicate n (Node p ch)) k = k"
  by (induction n arbitrary: k) simp_all

lemma fold_countFrames_leaves:
  "isFrameLike p \<Longrightarrow> fold countFrames (replicate n (Node p None)) k = k + n"
  by (induction n arbitrary: k) simp_all

lemma fold_le_sum:
  assumes "\<And>c k. c \<in> set cs \<Longrightarrow> f c k \<le> k + g c"
  shows "fold f cs (k::nat) \<le> k + sum_list (map g cs)"
  using assms
proof (induction cs arbitrary: k)
  case Nil
  then show ?case by simp
next
  case (Cons c cs)
  have "fold f (c # cs) k = fold f cs (f c k)" by simp
  also have "\<dots> \<le> f c k + sum_list (map g cs)"
    using Cons.prems by (intro Cons.IH) simp
  also have "f c k \<le> k + g c"
    using Cons.prems by simp
  finally show ?case by simp
qed

lemma countFrames_le_nodeCount: "countFrames n k \<le> k + nodeCount n"
proof (induction n arbitrary: k)
  case (Node p ch)
  show ?case
  proof (cases ch)
    case None
    then show ?thesis by simp
  next
    case (Some cs)
    have "fold countFrames cs (k + 1) \<le> (k + 1) + sum_list (map nodeCount cs)"
      using Node.IH Some by (intro fold_le_sum) simp
    with Some show ?thesis by simp
  qed
qed

lemma frames_le_nodes: "fold countFrames ns 0 \<le> sum_list (map nodeCount ns)"
  using fold_le_sum [of ns countFrames nodeCount 0] countFrames_le_nodeCount by simp

text \<open>
  Claim C4, amended. On a rescan request with one to five selected roots, if the count
  of frames exceeds 5000, the handler sends an empty issue list and the error
  \<open>Too many frames detected\<close>, and leaves the audit log as it was: no node is
  evaluated. The count of frames is the number of frame, component and instance nodes
  reached from the roots through such nodes only; it never exceeds the number of nodes.
\<close>

theorem frame_cap:
  "(selection pg \<noteq> [] \<and> length (selection pg) \<le> 5
      \<and> 5000 < fold countFrames (selection pg) 0
    \<longrightarrow> scanAgain h st pg log
        = ([UPDATE_ISSUES [],
            SELECTION_ERROR_DETAIL ''Too many frames detected''
              ''More than 5000 nested frames detected. Select fewer frames and try again.''],
           log))
   \<and> fold countFrames (selection pg) 0 \<le> sum_list (map nodeCount (selection pg))"
proof
  show "selection pg \<noteq> [] \<and> length (selection pg) \<le> 5
      \<and> 5000 < fold countFrames (selection pg) 0
    \<longrightarrow> scanAgain h st pg log
        = ([UPDATE_ISSUES [],
            SELECTION_ERROR_DETAIL ''Too many frames detected''
              ''More than 5000 nested frames detected. Select fewer frames and try again.''],
           log)"
    by (simp add: scanAgain_def Let_def)
  show "fold countFrames (selection pg) 0 \<le> sum_list (map nodeCount (selection pg))"
    by (rule frames_le_nodes)
qed

lemma frameNode_frameLike: "isFrameLike frameNode"
  by code_simp

lemma paintedFrame_frameLike: "isFrameLike paintedFrame"
  by code_simp

lemma labelNode_not_frameLike: "\<not> isFrameLike labelNode"
  by code_simp

lemma countFrames_nestedFrames: "fold countFrames [nestedFrames] 0 = 5001"
proof -
  have "fold countFrames [nestedFrames] 0
      = fold countFrames (replicate 5000 (Node frameNode None)) (0 + 1)"
    by (simp add: nestedFrames_def frameNode_frameLike del: fold_replicate)
  also have "\<dots> = (0 + 1) + 5000"
    using frameNode_frameLike by (rule fold_countFrames_leaves)
  finally show ?thesis by simp
qed

lemma countFrames_crowdedFrame: "fold countFrames [crowdedFrame] 0 = 1"
proof -
  have "fold countFrames [crowdedFrame] 0
      = fold countFrames (replicate 5001 (Node labelNode None)) (0 + 1)"
    by (simp add: crowdedFrame_def paintedFrame_frameLike del: fold_replicate)
  also have "\<dots> = 0 + 1"
    using labelNode_not_frameLike by (rule fold_countFrames_others)
  finally show ?thesis by simp
qed

lemma nodeCount_crowdedFrame: "nodeCount crowdedFrame = 5002"
  by (simp add: crowdedFrame_def sum_list_replicate)

text \<open>A frame that holds 5000 frames: 5001 frames are counted.\<close>

theorem frame_cap_witness:
  "length (selection (onePage nestedFrames)) = 1
   \<and> fold countFrames (selection (onePage nestedFrames)) 0 = 5001
   \<and> scanAgain emptyHost defaultSettings (onePage nestedFrames) []
       = ([UPDATE_ISSUES [],
           SELECTION_ERROR_DETAIL ''Too many frames detected''
             ''More than 5000 nested frames detected. Select fewer frames and try again.''],
          [])"
proof -
  have s: "selection (onePage nestedFrames) = [nestedFrames]"
    by (simp add: onePage_def)
  have c: "fold countFrames (selection (onePage nestedFrames)) 0 = 5001"
    by (simp only: s countFrames_nestedFrames)
  have "selection (onePage nestedFrames) \<noteq> [] \<and> length (selection (onePage nestedFrames)) \<le> 5
      \<and> 5000 < fold countFrames (selection (onePage nestedFrames)) 0"
    by (simp only: c) (simp add: s)
  with frame_cap [of "onePage nestedFrames" emptyHost defaultSettings "[]"]
  have "scanAgain emptyHost defaultSettings (onePage nestedFrames) []
       = ([UPDATE_ISSUES [],
           SELECTION_ERROR_DETAIL ''Too many frames detected''
             ''More than 5000 nested frames detected. Select fewer frames and try again.''],
          [])"
    by blast
  with s c show ?thesis by simp
qed

lemma visit_paintedFrame:
  "map message (fst (visitNode emptyHost defaultSettings paintedFrame ([], [])))
   = [''Fill not linked to a style or variable'']"
  by code_simp

text \<open>
  Claim C4 as stated fails on a frame with 5001 text layers: the selection has 5002
  nodes, one frame is counted, the scan runs and the handler sends its issues, which are
  not empty.
\<close>

theorem node_count_cap_counterexample:
  "length (selection (onePage crowdedFrame)) = 1
   \<and> sum_list (map nodeCount (selection (onePage crowdedFrame))) = 5002
   \<and> fst (scanAgain emptyHost defaultSettings (onePage crowdedFrame) [])
       = [UPDATE_ISSUES (fst (scanForIssues emptyHost defaultSettings (onePage crowdedFrame) []))]
   \<and> fst (scanForIssues emptyHost defaultSettings (onePage crowdedFrame) []) \<noteq> []"
proof -
  have s: "selection (onePage crowdedFrame) = [crowdedFrame]"
    by (simp add: onePage_def)
  have n: "sum_list (map nodeCount (selection (onePage crowdedFrame))) = 5002"
    by (simp only: s) (simp add: nodeCount_crowdedFrame)
  have c: "fold countFrames (selection (onePage crowdedFrame)) 0 = 1"
    by (simp only: s countFrames_crowdedFrame)
  have a: "fst (scanAgain emptyHost defaultSettings (onePage crowdedFrame) [])
       = [UPDATE_ISSUES (fst (scanForIssues emptyHost defaultSettings (onePage crowdedFrame) []))]"
    by (simp add: scanAgain_def Let_def c) (simp add: s)
  have "fst (visitNode emptyHost defaultSettings paintedFrame ([], [])) \<noteq> []"
    using visit_paintedFrame by auto
  then have f: "fst (fold (traverse emptyHost defaultSettings)
        (filter (keepChild defaultSettings) (replicate 5001 (Node labelNode None)))
        (visitNode emptyHost defaultSettings paintedFrame ([], []))) \<noteq> []"
    by (simp only: fold_traverse_append) simp
  have t: "traverse emptyHost defaultSettings crowdedFrame ([], [])
      = fold (traverse emptyHost defaultSettings)
          (filter (keepChild defaultSettings) (replicate 5001 (Node labelNode None)))
          (visitNode emptyHost defaultSettings paintedFrame ([], []))"
    by (simp only: crowdedFrame_def traverse.simps option.case)
  have "fst (traverse emptyHost defaultSettings crowdedFrame ([], [])) \<noteq> []"
    by (subst t) (rule f)
  then have i: "fst (scanForIssues emptyHost defaultSettings (onePage crowdedFrame) []) \<noteq> []"
    by (simp add: scanForIssues_def s)
  from s n a i show ?thesis by simp
qed

section \<open>Properties of the aggregation\<close>

text \<open>
  One more issue either adds its key and itself at the end of the dictionary, or
  leaves the dictionary as it is when the key is there.
\<close>

lemma allDeduplicatedIssues_snoc:
  "allDeduplicatedIssues (xs @ [x]) = dedupStep (allDeduplicatedIssues xs) x"
  by (simp add: allDeduplicatedIssues_def)

lemma dedup_keys: "map fst (allDeduplicatedIssues xs) = map dedupKey (allUniqueIssues xs)"
proof (induction xs rule: rev_induct)
  case Nil
  show ?case by (simp add: allDeduplicatedIssues_def allUniqueIssues_def)
next
  case (snoc x xs)
  then show ?case
    by (simp add: allDeduplicatedIssues_snoc allUniqueIssues_def dedupStep_def
        split: option.splits)
qed

lemma allUniqueIssues_snoc:
  "allUniqueIssues (xs @ [x])
   = (if dedupKey x \<in> set (map dedupKey (allUniqueIssues xs)) then allUniqueIssues xs
      else allUniqueIssues xs @ [x])"
proof -
  have "map_of (allDeduplicatedIssues xs) (dedupKey x) = None
      \<longleftrightarrow> dedupKey x \<notin> set (map dedupKey (allUniqueIssues xs))"
    by (simp add: map_of_eq_None_iff dedup_keys [symmetric])
  then show ?thesis
    by (auto simp add: allUniqueIssues_def allDeduplicatedIssues_snoc dedupStep_def
        split: option.splits)
qed

lemma allUniqueIssues_Nil: "allUniqueIssues [] = []"
  by (simp add: allUniqueIssues_def allDeduplicatedIssues_def)

lemma unique_subseq: "subseq (allUniqueIssues xs) xs"
proof (induction xs rule: rev_induct)
  case Nil
  show ?case by (simp add: allUniqueIssues_Nil)
next
  case (snoc x xs)
  show ?case
  proof (cases "dedupKey x \<in> set (map dedupKey (allUniqueIssues xs))")
    case True
    then have "allUniqueIssues (xs @ [x]) = allUniqueIssues xs"
      by (simp add: allUniqueIssues_snoc)
    with snoc.IH show ?thesis by (simp add: list_emb_prefix)
  next
    case False
    then have "allUniqueIssues (xs @ [x]) = allUniqueIssues xs @ [x]"
      by (simp add: allUniqueIssues_snoc)
    with snoc.IH show ?thesis by (simp add: list_emb_append_mono)
  qed
qed

lemma unique_distinct: "distinct (map dedupKey (allUniqueIssues xs))"
proof (induction xs rule: rev_induct)
  case Nil
  show ?case by (simp add: allUniqueIssues_Nil)
next
  case (snoc x xs)
  then show ?case by (simp add: allUniqueIssues_snoc)
qed

lemma find_snoc:
  "List.find P (xs @ [x])
   = (case List.find P xs of None \<Rightarrow> (if P x then Some x else None) | Some y \<Rightarrow> Some y)"
  by (induction xs) simp_all

lemma unique_find:
  "List.find (\<lambda>i. dedupKey i = k) (allUniqueIssues xs) = List.find (\<lambda>i. dedupKey i = k) xs"
proof (induction xs rule: rev_induct)
  case Nil
  show ?case by (simp add: allUniqueIssues_Nil)
next
  case (snoc x xs)
  show ?case
  proof (cases "dedupKey x \<in> set (map dedupKey (allUniqueIssues xs))")
    case False
    then have "allUniqueIssues (xs @ [x]) = allUniqueIssues xs @ [x]"
      by (simp add: allUniqueIssues_snoc)
    with snoc.IH show ?thesis by (simp add: find_snoc)
  next
    case True
    then have u: "allUniqueIssues (xs @ [x]) = allUniqueIssues xs"
      by (simp add: allUniqueIssues_snoc)
    show ?thesis
    proof (cases "dedupKey x = k")
      case False
      with u snoc.IH show ?thesis by (simp add: find_snoc split: option.splits)
    next
      case k: True
      from True obtain y where "y \<in> set (allUniqueIssues xs)" "dedupKey y = dedupKey x"
        by auto
      with k have "List.find (\<lambda>i. dedupKey i = k) (allUniqueIssues xs) \<noteq> None"
        by (auto simp add: find_None_iff)
      with snoc.IH have "List.find (\<lambda>i. dedupKey i = k) xs \<noteq> None" by simp
      with u snoc.IH show ?thesis by (auto simp add: find_snoc)
    qed
  qed
qed

lemma foldl_countStep:
  "foldl countStep m xs t
   = (if countOfType t xs = 0 then m t
      else Some ((case m t of None \<Rightarrow> 0 | Some c \<Rightarrow> c) + countOfType t xs))"
proof (induction xs arbitrary: m)
  case Nil
  show ?case by (simp add: countOfType_def)
next
  case (Cons x xs)
  have "foldl countStep m (x # xs) t = foldl countStep (countStep m x) xs t"
    by simp
  also have "\<dots> = (if countOfType t xs = 0 then countStep m x t
      else Some ((case countStep m x t of None \<Rightarrow> 0 | Some c \<Rightarrow> c) + countOfType t xs))"
    by (rule Cons.IH)
  also have "\<dots> = (if countOfType t (x # xs) = 0 then m t
      else Some ((case m t of None \<Rightarrow> 0 | Some c \<Rightarrow> c) + countOfType t (x # xs)))"
    by (simp add: countStep_def countOfType_def)
  finally show ?case .
qed

lemma counts_deduplicated:
  "counts xs t
   = (if countOfType t (allUniqueIssues xs) = 0 then None
      else Some (countOfType t (allUniqueIssues xs)))"
  by (simp add: counts_def countsByType_def foldl_countStep)


subsection \<open>The key string and the key of the specification\<close>

text \<open>
  The key string is the node id, a hyphen, the type name and a rest. When node ids and
  messages hold no hyphen, the string can be split back into its parts.
\<close>

lemma takeWhile_sep:
  "c \<notin> set xs \<Longrightarrow> takeWhile (\<lambda>x. x \<noteq> c) (xs @ c # ys) = xs"
  by (induction xs) auto

lemma dropWhile_sep:
  "c \<notin> set xs \<Longrightarrow> dropWhile (\<lambda>x. x \<noteq> c) (xs @ c # ys) = c # ys"
  by (induction xs) auto

lemma takeWhile_all: "c \<notin> set xs \<Longrightarrow> takeWhile (\<lambda>x. x \<noteq> c) xs = xs"
  by (induction xs) auto

lemma dropWhile_all: "c \<notin> set xs \<Longrightarrow> dropWhile (\<lambda>x. x \<noteq> c) xs = []"
  by (induction xs) auto

lemma split_at_first:
  assumes "c \<notin> set xs" and "c \<notin> set xs'" and "xs @ c # ys = xs' @ c # ys'"
  shows "xs = xs' \<and> ys = ys'"
proof -
  have "takeWhile (\<lambda>x. x \<noteq> c) (xs @ c # ys) = takeWhile (\<lambda>x. x \<noteq> c) (xs' @ c # ys')"
    using assms(3) by simp
  then have "xs = xs'"
    using assms(1,2) by (simp add: takeWhile_sep)
  with assms(3) show ?thesis by simp
qed

lemma split_at_last:
  assumes "c \<notin> set ys" and "c \<notin> set ys'" and "xs @ c # ys = xs' @ c # ys'"
  shows "xs = xs' \<and> ys = ys'"
proof -
  have "rev (xs @ c # ys) = rev (xs' @ c # ys')"
    using assms(3) by simp
  then have "rev ys @ c # rev xs = rev ys' @ c # rev xs'"
    by simp
  moreover have "c \<notin> set (rev ys)" "c \<notin> set (rev ys')"
    using assms(1,2) by simp_all
  ultimately have "rev ys = rev ys' \<and> rev xs = rev xs'"
    by (rule split_at_first [rotated 2])
  then show ?thesis by simp
qed

lemma dedupKey_shape:
  "dedupKey i = nodeId i @ CHR ''-'' # typeName (issue_type i) @ keyRest i"
  by (simp add: dedupKey_def keyRest_def split: option.splits)

lemma typeName_no_hyphen: "CHR ''-'' \<notin> set (typeName t)"
  by (cases t) (simp_all add: typeName_def)

lemma typeName_inject: "typeName t = typeName t' \<Longrightarrow> t = t'"
  by (cases t; cases t') (simp_all add: typeName_def)

lemma keyRest_shape: "keyRest i = [] \<or> (\<exists>r. keyRest i = CHR ''-'' # r)"
  by (simp add: keyRest_def split: option.splits)

lemma typed_rest_split:
  assumes "typeName t @ r = typeName t' @ r'"
    and "r = [] \<or> (\<exists>q. r = CHR ''-'' # q)" and "r' = [] \<or> (\<exists>q. r' = CHR ''-'' # q)"
  shows "t = t' \<and> r = r'"
proof -
  have tw: "takeWhile (\<lambda>x. x \<noteq> CHR ''-'') (typeName u @ q) = typeName u"
    if "q = [] \<or> (\<exists>z. q = CHR ''-'' # z)" for u q
    using that typeName_no_hyphen [of u] by (auto simp add: takeWhile_sep takeWhile_all)
  have "takeWhile (\<lambda>x. x \<noteq> CHR ''-'') (typeName t @ r)
      = takeWhile (\<lambda>x. x \<noteq> CHR ''-'') (typeName t' @ r')"
    using assms(1) by simp
  then have "typeName t = typeName t'"
    using assms(2,3) by (simp only: tw)
  then have "t = t'" by (rule typeName_inject)
  with assms(1) show ?thesis by simp
qed

lemma keyRest_details:
  assumes "wellFormedIssue i" and "wellFormedIssue j"
    and "issue_type i = issue_type j" and "keyRest i = keyRest j"
  shows "details i = details j \<and> (issue_type i = Radius \<longrightarrow> message i = message j)"
proof (cases "issue_type i = Radius")
  case True
  let ?d = "\<lambda>k. case details k of None \<Rightarrow> [] | Some d \<Rightarrow> d"
  have "?d i @ CHR ''-'' # message i = ?d j @ CHR ''-'' # message j"
    using True assms(3,4) by (simp add: keyRest_def)
  moreover have "CHR ''-'' \<notin> set (message i)" "CHR ''-'' \<notin> set (message j)"
    using assms(1,2) by (simp_all add: wellFormedIssue_def)
  ultimately have "?d i = ?d j \<and> message i = message j"
    by (rule split_at_last [rotated 2])
  moreover have "details i \<noteq> Some []" "details j \<noteq> Some []"
    using assms(1,2) by (simp_all add: wellFormedIssue_def)
  ultimately show ?thesis
    by (auto split: option.splits)
next
  case False
  have "details i \<noteq> Some []" "details j \<noteq> Some []"
    using assms(1,2) by (simp_all add: wellFormedIssue_def)
  with False assms(3,4) show ?thesis
    by (auto simp add: keyRest_def split: option.splits)
qed

lemma dedupKey_specKey:
  assumes "wellFormedIssue i" and "wellFormedIssue j"
  shows "dedupKey i = dedupKey j \<longleftrightarrow> specKey i = specKey j"
proof
  assume "specKey i = specKey j"
  then show "dedupKey i = dedupKey j"
    by (auto simp add: specKey_def dedupKey_def split: if_splits)
next
  assume k: "dedupKey i = dedupKey j"
  have "nodeId i @ CHR ''-'' # (typeName (issue_type i) @ keyRest i)
      = nodeId j @ CHR ''-'' # (typeName (issue_type j) @ keyRest j)"
    using k by (simp only: dedupKey_shape)
  moreover have "CHR ''-'' \<notin> set (nodeId i)" "CHR ''-'' \<notin> set (nodeId j)"
    using assms by (simp_all add: wellFormedIssue_def)
  ultimately have n: "nodeId i = nodeId j
      \<and> typeName (issue_type i) @ keyRest i = typeName (issue_type j) @ keyRest j"
    by (rule split_at_first [rotated 2])
  then have t: "issue_type i = issue_type j \<and> keyRest i = keyRest j"
    using keyRest_shape [of i] keyRest_shape [of j] by (intro typed_rest_split) simp_all
  then have "details i = details j \<and> (issue_type i = Radius \<longrightarrow> message i = message j)"
    using assms by (intro keyRest_details) simp_all
  with n t show "specKey i = specKey j"
    by (simp add: specKey_def)
qed


subsection \<open>The issues of a scan are well formed\<close>

text \<open>
  The messages of the linter hold no hyphen and the details it writes are never empty.
  So when no node id of the scanned trees holds a hyphen, every issue a scan emits is
  well formed for the aggregation.
\<close>

lemma typeText_no_hyphen: "CHR ''-'' \<notin> set (typeText t)"
  by (cases t) (simp_all add: typeText_def)

lemma wellFormed_created:
  assumes "CHR ''-'' \<notin> set (node_id p)"
  shows "wellFormedIssue (createFillIssue p)"
    and "wellFormedIssue (createStrokeIssue p)"
    and "wellFormedIssue (createTextIssue p)"
    and "d \<noteq> [] \<Longrightarrow> wellFormedIssue (createRadiusIssue p d)"
    and "wellFormedIssue (createGapIssue p)"
    and "d \<noteq> [] \<Longrightarrow> wellFormedIssue (createPaddingIssue p d)"
    and "wellFormedIssue (createWrongLibraryIssue p t l n)"
  using assms typeText_no_hyphen [of t]
  by (simp_all add: wellFormedIssue_def createFillIssue_def createStrokeIssue_def
      createTextIssue_def createRadiusIssue_def createGapIssue_def createPaddingIssue_def
      createWrongLibraryIssue_def baseIssue_def)

lemma wellFormed_fillsCheck:
  "CHR ''-'' \<notin> set (node_id p) \<Longrightarrow> list_all wellFormedIssue (fillsCheck p)"
  by (simp add: fillsCheck_def wellFormed_created Let_def
      split: option.splits orMixed.splits list.splits)

lemma wellFormed_strokesCheck:
  "CHR ''-'' \<notin> set (node_id p) \<Longrightarrow> list_all wellFormedIssue (strokesCheck p)"
  by (simp add: strokesCheck_def wellFormed_created Let_def split: option.splits list.splits)

lemma wellFormed_textCheck:
  "CHR ''-'' \<notin> set (node_id p) \<Longrightarrow> list_all wellFormedIssue (textCheck p)"
  by (simp add: textCheck_def wellFormed_created Let_def)

lemma wellFormed_radiusCheck:
  "CHR ''-'' \<notin> set (node_id p) \<Longrightarrow> list_all wellFormedIssue (fst (radiusCheck p))"
  by (simp add: radiusCheck_def wellFormed_created Let_def split: option.splits)

lemma wellFormed_layoutCheck:
  "CHR ''-'' \<notin> set (node_id p) \<Longrightarrow> list_all wellFormedIssue (layoutCheck p)"
  by (simp add: layoutCheck_def wellFormed_created Let_def split: option.splits)

lemma wellFormed_checkDetachedStyles:
  "CHR ''-'' \<notin> set (node_id p) \<Longrightarrow>
   list_all wellFormedIssue (fst (checkDetachedStyles p log))"
  by (simp add: checkDetachedStyles_def wellFormed_fillsCheck wellFormed_strokesCheck
      wellFormed_textCheck wellFormed_radiusCheck wellFormed_layoutCheck)

lemma wellFormed_styleSourceCheck:
  "CHR ''-'' \<notin> set (node_id p) \<Longrightarrow>
   list_all wellFormedIssue (styleSourceCheck h p lib libMap exceptions t sid)"
  by (simp add: styleSourceCheck_def wellFormed_created Let_def
      split: option.splits orMixed.splits prod.splits)

lemma wellFormed_variableSourceCheck:
  "CHR ''-'' \<notin> set (node_id p) \<Longrightarrow>
   list_all wellFormedIssue (variableSourceCheck h p lib libMap entry)"
  by (simp add: variableSourceCheck_def wellFormed_created split: option.splits)

lemma wellFormed_checkLibrarySources:
  assumes "CHR ''-'' \<notin> set (node_id p)"
  shows "list_all wellFormedIssue (checkLibrarySources h p lib libMap exceptions)"
proof -
  have s: "list_all wellFormedIssue (styleSourceCheck h p lib libMap ex t sid)"
    for ex t sid
    using assms by (rule wellFormed_styleSourceCheck)
  have v: "list_all wellFormedIssue (concat (map (variableSourceCheck h p lib libMap) bv))"
    for bv
    using wellFormed_variableSourceCheck [OF assms] by (induction bv) simp_all
  show ?thesis
    by (simp add: checkLibrarySources_def s v split: option.splits)
qed

lemma wellFormed_visitNode:
  assumes "CHR ''-'' \<notin> set (node_id p)"
  shows "list_all wellFormedIssue (fst (visitNode h st p ([], [])))"
proof -
  have d: "list_all wellFormedIssue (filter (shouldInclude st) (fst (checkDetachedStyles p [])))"
    using wellFormed_checkDetachedStyles [OF assms, of "[]"] by (simp add: list_all_iff)
  show ?thesis
    using d wellFormed_checkLibrarySources [OF assms]
    by (simp add: visitNode_def Let_def split: option.splits)
qed

lemma wellFormed_traverse:
  "hyphenFreeIds n \<Longrightarrow> list_all wellFormedIssue (fst (traverse h st n ([], [])))"
proof (induction n)
  case (Node p ch)
  have i: "CHR ''-'' \<notin> set (node_id p)"
    using Node.prems by simp
  show ?case
  proof (cases ch)
    case None
    with i show ?thesis by (simp add: wellFormed_visitNode)
  next
    case (Some cs)
    have c: "list_all wellFormedIssue (fst (traverse h st c ([], [])))"
      if "c \<in> set (filter (keepChild st) cs)" for c
      using that Node.IH Node.prems Some by (auto simp add: list_all_iff)
    have "fst (traverse h st (Node p ch) ([], []))
        = fst (visitNode h st p ([], []))
          @ concat (map (\<lambda>n. fst (traverse h st n ([], []))) (filter (keepChild st) cs))"
      using Some by (simp add: fold_traverse_append)
    moreover have "list_all wellFormedIssue
        (concat (map (\<lambda>n. fst (traverse h st n ([], []))) (filter (keepChild st) cs)))"
      using c by (auto simp add: list_all_iff)
    ultimately show ?thesis
      using wellFormed_visitNode [OF i] by simp
  qed
qed

lemma wellFormed_scanForIssues:
  assumes "list_all hyphenFreeIds (selection pg)" and "list_all hyphenFreeIds (pageChildren pg)"
  shows "list_all wellFormedIssue (fst (scanForIssues h st pg log))"
proof -
  have "list_all wellFormedIssue (concat (map (\<lambda>n. fst (traverse h st n ([], []))) ns))"
    if "list_all hyphenFreeIds ns" for ns
    using that wellFormed_traverse by (auto simp add: list_all_iff)
  with assms show ?thesis
    by (simp add: scanForIssues_def Let_def fold_traverse_append)
qed

subsection \<open>First occurrence per key\<close>

lemma unique_subset: "set (allUniqueIssues xs) \<subseteq> set xs"
proof
  fix x
  assume "x \<in> set (allUniqueIssues xs)"
  with unique_subseq [of xs] obtain y where "y \<in> set xs" and "x = y"
    by (rule list_emb_set)
  then show "x \<in> set xs" by simp
qed

text \<open>
  Claim C8. The aggregation receives the issue list of a scan, and such a list is well
  formed: no node id and no message holds a hyphen and no details are present and
  empty. For every well-formed raw issue list: the deduplicated list is a subsequence
  of the raw list; the keys of its issues are distinct, the key being node, category,
  details and message for a radius issue and node, category and details for any other;
  for every key, the deduplicated list holds the first issue of the raw list with that
  key, or none if the raw list has none; and the count of every category is the number
  of issues of that category in the deduplicated list (no entry when there is none).
\<close>

theorem aggregation_first_occurrence:
  assumes "list_all wellFormedIssue issues"
  shows "subseq (allUniqueIssues issues) issues
    \<and> distinct (map specKey (allUniqueIssues issues))
    \<and> (\<forall>k. List.find (\<lambda>i. specKey i = k) (allUniqueIssues issues)
             = List.find (\<lambda>i. specKey i = k) issues)
    \<and> (\<forall>t. counts issues t
             = (if countOfType t (allUniqueIssues issues) = 0 then None
                else Some (countOfType t (allUniqueIssues issues))))"
proof (intro conjI allI)
  have wf: "wellFormedIssue i" if "i \<in> set issues" for i
    using assms that by (simp add: list_all_iff)
  have wfU: "wellFormedIssue i" if "i \<in> set (allUniqueIssues issues)" for i
    using that unique_subset wf by blast
  show "subseq (allUniqueIssues issues) issues"
    by (rule unique_subseq)
  show "distinct (map specKey (allUniqueIssues issues))"
  proof -
    have d: "distinct (allUniqueIssues issues)"
      and inj: "inj_on dedupKey (set (allUniqueIssues issues))"
      using unique_distinct [of issues] by (simp_all add: distinct_map)
    have "inj_on specKey (set (allUniqueIssues issues))"
    proof (rule inj_onI)
      fix a b
      assume a: "a \<in> set (allUniqueIssues issues)" and b: "b \<in> set (allUniqueIssues issues)"
        and "specKey a = specKey b"
      then have "dedupKey a = dedupKey b"
        using dedupKey_specKey [OF wfU [OF a] wfU [OF b]] by simp
      with inj a b show "a = b" by (simp add: inj_on_def)
    qed
    with d show ?thesis by (simp add: distinct_map)
  qed
  show "List.find (\<lambda>i. specKey i = k) (allUniqueIssues issues)
      = List.find (\<lambda>i. specKey i = k) issues" for k
  proof (cases "\<exists>j \<in> set issues. specKey j = k")
    case False
    then have "List.find (\<lambda>i. specKey i = k) issues = None"
      by (simp add: find_None_iff)
    moreover have "List.find (\<lambda>i. specKey i = k) (allUniqueIssues issues) = None"
      using False unique_subset [of issues] by (auto simp add: find_None_iff)
    ultimately show ?thesis by simp
  next
    case True
    then obtain j where j: "j \<in> set issues" and k: "specKey j = k" by blast
    have e: "(specKey i = k) = (dedupKey i = dedupKey j)" if "i \<in> set issues" for i
      using dedupKey_specKey [OF wf [OF that] wf [OF j]] k by simp
    have "List.find (\<lambda>i. specKey i = k) issues = List.find (\<lambda>i. dedupKey i = dedupKey j) issues"
      using e by (intro find_cong) simp_all
    moreover have "List.find (\<lambda>i. specKey i = k) (allUniqueIssues issues)
        = List.find (\<lambda>i. dedupKey i = dedupKey j) (allUniqueIssues issues)"
      using e unique_subset [of issues] by (intro find_cong) auto
    ultimately show ?thesis by (simp add: unique_find)
  qed
  show "counts issues t
      = (if countOfType t (allUniqueIssues issues) = 0 then None
         else Some (countOfType t (allUniqueIssues issues)))" for t
    by (rule counts_deduplicated)
qed

text \<open>A fill, a padding and a radius issue of one node, each reported twice.\<close>

theorem aggregation_first_occurrence_witness:
  "list_all wellFormedIssue repeatedIssues
   \<and> allUniqueIssues repeatedIssues
       = [createFillIssue paintedFrame, createPaddingIssue paintedFrame ''all'',
          createRadiusIssue paintedFrame ''uniform'']
   \<and> distinct (map specKey (allUniqueIssues repeatedIssues))
   \<and> counts repeatedIssues Padding = Some 1
   \<and> counts repeatedIssues Gap = None"
proof -
  have w: "list_all wellFormedIssue repeatedIssues" by code_simp
  have u: "allUniqueIssues repeatedIssues
       = [createFillIssue paintedFrame, createPaddingIssue paintedFrame ''all'',
          createRadiusIssue paintedFrame ''uniform'']"
    by code_simp
  note t = aggregation_first_occurrence [OF w]
  from t have d: "distinct (map specKey (allUniqueIssues repeatedIssues))" by simp
  have c: "countOfType Padding (allUniqueIssues repeatedIssues) = 1"
    "countOfType Gap (allUniqueIssues repeatedIssues) = 0"
    by code_simp+
  from t have "counts repeatedIssues Padding
      = (if countOfType Padding (allUniqueIssues repeatedIssues) = 0 then None
         else Some (countOfType Padding (allUniqueIssues repeatedIssues)))"
    by blast
  with c have p: "counts repeatedIssues Padding = Some 1" by simp
  from t have "counts repeatedIssues Gap
      = (if countOfType Gap (allUniqueIssues repeatedIssues) = 0 then None
         else Some (countOfType Gap (allUniqueIssues repeatedIssues)))"
    by blast
  with c have g: "counts repeatedIssues Gap = None" by simp
  from w u d p g show ?thesis by simp
qed

end
